theory Spec2Isabelle
  imports Main "HOL-Library.Word"
begin

section \<open>Machine integers, errors and constants\<close>

text \<open>
  The package is modelled as compiled for a 64-bit platform: Go's \<open>int\<close> and \<open>int64\<close> are
  both 64-bit two's complement integers. Arithmetic on them wraps around; comparisons
  are signed and are written through \<open>sint\<close>.
\<close>

type_synonym go_int = "64 word"
type_synonym int64 = "64 word"

text \<open>The sentinel errors of the package; \<open>Wrapped e msg\<close> is \<open>fmt.Errorf("%w: ...", e, ...)\<close>
  with the formatted message \<open>msg\<close>.\<close>

datatype error =
    ErrInvalidPage
  | ErrInvalidPageSize
  | ErrInvalidCursor
  | ErrInvalidOffset
  | ErrInvalidRange
  | Wrapped error string

fun error_text :: "error \<Rightarrow> string" where
  "error_text ErrInvalidPage = ''paginate: page must be >= 1''"
| "error_text ErrInvalidPageSize = ''paginate: page_size must be between min and max allowed values''"
| "error_text ErrInvalidCursor = ''paginate: cursor is malformed or invalid''"
| "error_text ErrInvalidOffset = ''paginate: offset must be >= 0''"
| "error_text ErrInvalidRange = ''paginate: invalid range parameters''"
| "error_text (Wrapped e msg) = msg"

text \<open>\<open>errors.Is\<close>: the sentinel an error is, or wraps.\<close>

fun error_is :: "error \<Rightarrow> error \<Rightarrow> bool" where
  "error_is (Wrapped e msg) target = (Wrapped e msg = target \<or> error_is e target)"
| "error_is e target = (e = target)"

definition DefaultPage :: go_int where "DefaultPage = 1"
definition DefaultPageSize :: go_int where "DefaultPageSize = 20"
definition MaxPageSize :: go_int where "MaxPageSize = 1000"
definition MinPageSize :: go_int where "MinPageSize = 1"

section \<open>Decimal text: \<open>%d\<close> and \<open>strconv\<close>\<close>

definition digit_char :: "nat \<Rightarrow> char" where
  "digit_char d = ''0123456789'' ! d"

fun nat_dec :: "nat \<Rightarrow> string" where
  "nat_dec n = (if n < 10 then [digit_char n] else nat_dec (n div 10) @ [digit_char (n mod 10)])"

declare nat_dec.simps [simp del]

text \<open>The verb \<open>%d\<close> of \<open>fmt\<close> (and \<open>strconv.Itoa\<close>) on a signed integer.\<close>

definition fmt_d :: "int \<Rightarrow> string" where
  "fmt_d i = (if i < 0 then CHR ''-'' # nat_dec (nat (- i)) else nat_dec (nat i))"

definition is_digit :: "char \<Rightarrow> bool" where
  "is_digit c = (c \<in> set ''0123456789'')"

definition digit_val :: "char \<Rightarrow> nat" where
  "digit_val c = of_char c - 48"

definition dec_value :: "string \<Rightarrow> nat" where
  "dec_value ds = foldl (\<lambda>n c. 10 * n + digit_val c) 0 ds"

text \<open>
  \<open>strconv.ParseInt(s, 10, 64)\<close>: an optional sign, then one or more decimal digits;
  a syntax error or a value outside the range of \<open>int64\<close> is an error (\<open>None\<close>).
\<close>

definition ParseInt :: "string \<Rightarrow> int64 option" where
  "ParseInt s =
     (if s = [] then None
      else
        let neg = (hd s = CHR ''-'');
            ds = (if hd s = CHR ''+'' \<or> hd s = CHR ''-'' then tl s else s)
        in if ds = [] \<or> \<not> list_all is_digit ds then None
           else
             let un = dec_value ds
             in if \<not> neg \<and> un \<ge> 2 ^ 63 then None
                else if neg \<and> un > 2 ^ 63 then None
                else Some (if neg then - (word_of_nat un) else word_of_nat un))"

text \<open>\<open>strconv.Atoi\<close>, with \<open>int\<close> 64 bits wide.\<close>

definition Atoi :: "string \<Rightarrow> go_int option" where
  "Atoi s = ParseInt s"

section \<open>Offset paginator\<close>

record Paginator =
  Page :: go_int
  PageSize :: go_int

definition New :: Paginator where
  "New = \<lparr>Page = DefaultPage, PageSize = DefaultPageSize\<rparr>"

definition Clone :: "Paginator \<Rightarrow> Paginator" where
  "Clone p = \<lparr>Page = Page p, PageSize = PageSize p\<rparr>"

definition WithPage :: "Paginator \<Rightarrow> go_int \<Rightarrow> Paginator" where
  "WithPage p page =
     (let clone = Clone p;
          page = (if sint page < 1 then DefaultPage else page)
      in clone\<lparr>Page := page\<rparr>)"

definition WithPageSize :: "Paginator \<Rightarrow> go_int \<Rightarrow> Paginator" where
  "WithPageSize p sz =
     (let clone = Clone p;
          sz = (if sint sz < sint MinPageSize then DefaultPageSize else sz);
          sz = (if sint sz > sint MaxPageSize then MaxPageSize else sz)
      in clone\<lparr>PageSize := sz\<rparr>)"

definition NewWithSize :: "go_int \<Rightarrow> Paginator" where
  "NewWithSize pageSize = WithPageSize New pageSize"

definition NewFromValues :: "go_int \<Rightarrow> go_int \<Rightarrow> Paginator" where
  "NewFromValues page pageSize = WithPageSize (WithPage New page) pageSize"

text \<open>\<open>int64(p.Page-1) * int64(p.PageSize)\<close>: the subtraction is made in \<open>int\<close>, the product
  in \<open>int64\<close>; both wrap around.\<close>

definition Offset :: "Paginator \<Rightarrow> int64" where
  "Offset p = (Page p - 1) * PageSize p"

definition Limit_of :: "Paginator \<Rightarrow> go_int" where
  "Limit_of p = PageSize p"

definition Validate :: "Paginator \<Rightarrow> error option" where
  "Validate p =
     (if sint (Page p) < 1 then
        Some (Wrapped ErrInvalidPage
          (error_text ErrInvalidPage @ '': got '' @ fmt_d (sint (Page p))))
      else if sint (PageSize p) < sint MinPageSize \<or> sint (PageSize p) > sint MaxPageSize then
        Some (Wrapped ErrInvalidPageSize
          (error_text ErrInvalidPageSize @ '': got '' @ fmt_d (sint (PageSize p))
            @ '', allowed range ['' @ fmt_d (sint MinPageSize) @ '', ''
            @ fmt_d (sint MaxPageSize) @ '']''))
      else None)"

text \<open>\<open>url.Values\<close> is a map from a key to its list of values; \<open>Get\<close> is the first value of
  the key, or the empty string.\<close>

type_synonym Values = "string \<rightharpoonup> string list"

definition Get :: "Values \<Rightarrow> string \<Rightarrow> string" where
  "Get q k = (case q k of None \<Rightarrow> [] | Some [] \<Rightarrow> [] | Some (v # vs) \<Rightarrow> v)"

definition FromQuery :: "Values \<Rightarrow> Paginator" where
  "FromQuery q =
     (let p = New;
          p = (if Get q ''page'' \<noteq> [] then
                 (case Atoi (Get q ''page'') of
                    Some page \<Rightarrow> if sint page > 0 then WithPage p page else p
                  | None \<Rightarrow> p)
               else p);
          p = (if Get q ''page_size'' \<noteq> [] then
                 (case Atoi (Get q ''page_size'') of
                    Some sz \<Rightarrow> if sint sz > 0 then WithPageSize p sz else p
                  | None \<Rightarrow> p)
               else p);
          p = (if Get q ''limit'' \<noteq> [] \<and> Get q ''page_size'' = [] then
                 (case Atoi (Get q ''limit'') of
                    Some sz \<Rightarrow> if sint sz > 0 then WithPageSize p sz else p
                  | None \<Rightarrow> p)
               else p);
          p = (if Get q ''per_page'' \<noteq> [] \<and> Get q ''page_size'' = [] then
                 (case Atoi (Get q ''per_page'') of
                    Some sz \<Rightarrow> if sint sz > 0 then WithPageSize p sz else p
                  | None \<Rightarrow> p)
               else p)
      in p)"

text \<open>
  A value of type \<open>any\<close> as \<open>extractInt\<close> sees it. Floating-point values stay abstract
  (types \<open>'f\<close> for \<open>float64\<close> and \<open>'g\<close> for \<open>float32\<close>); their conversions to \<open>int\<close> are
  parameters.
\<close>

datatype ('f, 'g) any =
    AnyInt go_int
  | AnyInt64 int64
  | AnyInt32 "32 word"
  | AnyFloat64 'f
  | AnyFloat32 'g
  | AnyString string
  | AnyOther

fun extractInt :: "('f \<Rightarrow> go_int) \<Rightarrow> ('g \<Rightarrow> go_int) \<Rightarrow> ('f, 'g) any \<Rightarrow> go_int" where
  "extractInt f64 f32 (AnyInt val) = val"
| "extractInt f64 f32 (AnyInt64 val) = val"
| "extractInt f64 f32 (AnyInt32 val) = scast val"
| "extractInt f64 f32 (AnyFloat64 val) = f64 val"
| "extractInt f64 f32 (AnyFloat32 val) = f32 val"
| "extractInt f64 f32 (AnyString val) = (case Atoi val of Some n \<Rightarrow> n | None \<Rightarrow> 0)"
| "extractInt f64 f32 AnyOther = 0"

definition FromMap ::
  "('f \<Rightarrow> go_int) \<Rightarrow> ('g \<Rightarrow> go_int) \<Rightarrow> (string \<rightharpoonup> ('f, 'g) any) \<Rightarrow> Paginator" where
  "FromMap f64 f32 m =
     (let p = New;
          p = (case m ''page'' of
                 Some v \<Rightarrow> if sint (extractInt f64 f32 v) > 0
                           then WithPage p (extractInt f64 f32 v) else p
               | None \<Rightarrow> p);
          p = (case m ''page_size'' of
                 Some v \<Rightarrow> if sint (extractInt f64 f32 v) > 0
                           then WithPageSize p (extractInt f64 f32 v) else p
               | None \<Rightarrow> p)
      in p)"

text \<open>Every way the package has of making a paginator, and the two setters applied to
  one afterwards.\<close>

datatype ('f, 'g) origin =
    ByNew
  | ByNewWithSize go_int
  | ByNewFromValues go_int go_int
  | ByFromQuery Values
  | ByFromMap "'f \<Rightarrow> go_int" "'g \<Rightarrow> go_int" "string \<rightharpoonup> ('f, 'g) any"

fun construct :: "('f, 'g) origin \<Rightarrow> Paginator" where
  "construct ByNew = New"
| "construct (ByNewWithSize n) = NewWithSize n"
| "construct (ByNewFromValues a b) = NewFromValues a b"
| "construct (ByFromQuery q) = FromQuery q"
| "construct (ByFromMap f64 f32 m) = FromMap f64 f32 m"

datatype setter = SetPage go_int | SetPageSize go_int

fun apply_setter :: "Paginator \<Rightarrow> setter \<Rightarrow> Paginator" where
  "apply_setter p (SetPage n) = WithPage p n"
| "apply_setter p (SetPageSize n) = WithPageSize p n"

definition chain :: "Paginator \<Rightarrow> setter list \<Rightarrow> Paginator" where
  "chain p ops = foldl apply_setter p ops"

definition in_bounds :: "Paginator \<Rightarrow> bool" where
  "in_bounds p \<longleftrightarrow>
     1 \<le> sint (Page p) \<and> sint MinPageSize \<le> sint (PageSize p) \<and> sint (PageSize p) \<le> sint MaxPageSize"

section \<open>Cursor paginator\<close>

record CursorPaginator =
  Cursor :: string
  Limit :: go_int
  Forward :: bool

definition NewCursor :: CursorPaginator where
  "NewCursor = \<lparr>Cursor = [], Limit = DefaultPageSize, Forward = True\<rparr>"

definition CClone :: "CursorPaginator \<Rightarrow> CursorPaginator" where
  "CClone c = \<lparr>Cursor = Cursor c, Limit = Limit c, Forward = Forward c\<rparr>"

definition WithLimit :: "CursorPaginator \<Rightarrow> go_int \<Rightarrow> CursorPaginator" where
  "WithLimit c limit =
     (let clone = CClone c;
          limit = (if sint limit < sint MinPageSize then DefaultPageSize else limit);
          limit = (if sint limit > sint MaxPageSize then MaxPageSize else limit)
      in clone\<lparr>Limit := limit\<rparr>)"

definition WithCursor :: "CursorPaginator \<Rightarrow> string \<Rightarrow> CursorPaginator" where
  "WithCursor c cursor = (let clone = CClone c in clone\<lparr>Cursor := cursor\<rparr>)"

definition WithForward :: "CursorPaginator \<Rightarrow> bool \<Rightarrow> CursorPaginator" where
  "WithForward c forward = (let clone = CClone c in clone\<lparr>Forward := forward\<rparr>)"

section \<open>Pointers: the setters on the heap\<close>

text \<open>
  The methods have pointer receivers and return pointers. To state that a setter leaves
  its receiver alone, the objects live in a store: an address is an index into the list
  of the objects allocated so far, a pointer is \<open>nil\<close> (\<open>None\<close>) or an address, and
  \<open>&T{...}\<close> allocates at the end. Reading or writing through \<open>nil\<close> panics.
  \<open>WithPage\<close> and the other functions above compute the fields of the object that the
  method of the same name returns; the functions here follow the method statement by
  statement.
\<close>

datatype panic = NilPointerDereference

type_synonym 'a store = "'a list"
type_synonym ref = "nat option"

definition load :: "'a store \<Rightarrow> ref \<Rightarrow> panic + 'a" where
  "load s r =
     (case r of
        None \<Rightarrow> Inl NilPointerDereference
      | Some a \<Rightarrow> if a < length s then Inr (s ! a) else Inl NilPointerDereference)"

definition alloc :: "'a store \<Rightarrow> 'a \<Rightarrow> 'a store \<times> ref" where
  "alloc s v = (s @ [v], Some (length s))"

definition assign :: "'a store \<Rightarrow> ref \<Rightarrow> ('a \<Rightarrow> 'a) \<Rightarrow> panic + 'a store" where
  "assign s r f =
     (case r of
        None \<Rightarrow> Inl NilPointerDereference
      | Some a \<Rightarrow> if a < length s then Inr (s[a := f (s ! a)]) else Inl NilPointerDereference)"

definition Clone_ptr :: "Paginator store \<Rightarrow> ref \<Rightarrow> panic + Paginator store \<times> ref" where
  "Clone_ptr s p =
     (case load s p of
        Inl e \<Rightarrow> Inl e
      | Inr v \<Rightarrow> Inr (alloc s \<lparr>Page = Page v, PageSize = PageSize v\<rparr>))"

definition WithPage_ptr ::
  "Paginator store \<Rightarrow> ref \<Rightarrow> go_int \<Rightarrow> panic + Paginator store \<times> ref" where
  "WithPage_ptr s p page =
     (case Clone_ptr s p of
        Inl e \<Rightarrow> Inl e
      | Inr (s1, clone) \<Rightarrow>
          let page = (if sint page < 1 then DefaultPage else page)
          in (case assign s1 clone (\<lambda>obj. obj\<lparr>Page := page\<rparr>) of
                Inl e \<Rightarrow> Inl e
              | Inr s2 \<Rightarrow> Inr (s2, clone)))"

definition WithPageSize_ptr ::
  "Paginator store \<Rightarrow> ref \<Rightarrow> go_int \<Rightarrow> panic + Paginator store \<times> ref" where
  "WithPageSize_ptr s p sz =
     (case Clone_ptr s p of
        Inl e \<Rightarrow> Inl e
      | Inr (s1, clone) \<Rightarrow>
          let sz = (if sint sz < sint MinPageSize then DefaultPageSize else sz);
              sz = (if sint sz > sint MaxPageSize then MaxPageSize else sz)
          in (case assign s1 clone (\<lambda>obj. obj\<lparr>PageSize := sz\<rparr>) of
                Inl e \<Rightarrow> Inl e
              | Inr s2 \<Rightarrow> Inr (s2, clone)))"

definition CClone_ptr ::
  "CursorPaginator store \<Rightarrow> ref \<Rightarrow> panic + CursorPaginator store \<times> ref" where
  "CClone_ptr s c =
     (case load s c of
        Inl e \<Rightarrow> Inl e
      | Inr v \<Rightarrow> Inr (alloc s \<lparr>Cursor = Cursor v, Limit = Limit v, Forward = Forward v\<rparr>))"

definition WithLimit_ptr ::
  "CursorPaginator store \<Rightarrow> ref \<Rightarrow> go_int \<Rightarrow> panic + CursorPaginator store \<times> ref" where
  "WithLimit_ptr s c limit =
     (case CClone_ptr s c of
        Inl e \<Rightarrow> Inl e
      | Inr (s1, clone) \<Rightarrow>
          let limit = (if sint limit < sint MinPageSize then DefaultPageSize else limit);
              limit = (if sint limit > sint MaxPageSize then MaxPageSize else limit)
          in (case assign s1 clone (\<lambda>obj. obj\<lparr>Limit := limit\<rparr>) of
                Inl e \<Rightarrow> Inl e
              | Inr s2 \<Rightarrow> Inr (s2, clone)))"

definition WithCursor_ptr ::
  "CursorPaginator store \<Rightarrow> ref \<Rightarrow> string \<Rightarrow> panic + CursorPaginator store \<times> ref" where
  "WithCursor_ptr s c cursor =
     (case CClone_ptr s c of
        Inl e \<Rightarrow> Inl e
      | Inr (s1, clone) \<Rightarrow>
          (case assign s1 clone (\<lambda>obj. obj\<lparr>Cursor := cursor\<rparr>) of
             Inl e \<Rightarrow> Inl e
           | Inr s2 \<Rightarrow> Inr (s2, clone)))"

definition WithForward_ptr ::
  "CursorPaginator store \<Rightarrow> ref \<Rightarrow> bool \<Rightarrow> panic + CursorPaginator store \<times> ref" where
  "WithForward_ptr s c forward =
     (case CClone_ptr s c of
        Inl e \<Rightarrow> Inl e
      | Inr (s1, clone) \<Rightarrow>
          (case assign s1 clone (\<lambda>obj. obj\<lparr>Forward := forward\<rparr>) of
             Inl e \<Rightarrow> Inl e
           | Inr s2 \<Rightarrow> Inr (s2, clone)))"

text \<open>
  What a copy-on-write operation promises of the store \<open>s'\<close> and the pointer \<open>q\<close> it
  returns, called on the receiver \<open>p\<close> in the store \<open>s\<close>: \<open>q\<close> is not the receiver and was
  not allocated before, it holds the object \<open>v'\<close> now, and every object of \<open>s\<close> (the
  receiver among them) is in \<open>s'\<close> as it was.
\<close>

definition new_instance :: "'a store \<Rightarrow> ref \<Rightarrow> 'a store \<Rightarrow> ref \<Rightarrow> 'a \<Rightarrow> bool" where
  "new_instance s p s' q v' \<longleftrightarrow>
     q \<noteq> p \<and> load s q = Inl NilPointerDereference \<and> load s' q = Inr v' \<and>
     take (length s) s' = s"

section \<open>Range\<close>

record Range =
  Start :: int64
  End :: int64
  Unit :: string

definition NewRange :: "int64 \<Rightarrow> int64 \<Rightarrow> Range" where
  "NewRange start en = \<lparr>Start = start, End = en, Unit = ''items''\<rparr>"

definition NewRangeWithUnit :: "int64 \<Rightarrow> int64 \<Rightarrow> string \<Rightarrow> Range" where
  "NewRangeWithUnit start en u = \<lparr>Start = start, End = en, Unit = u\<rparr>"

definition Size :: "Range \<Rightarrow> int64" where
  "Size r = (if sint (End r) < sint (Start r) then 0 else End r - Start r + 1)"

definition Range_Validate :: "Range \<Rightarrow> error option" where
  "Range_Validate r =
     (if sint (Start r) < 0 then Some ErrInvalidOffset
      else if sint (End r) < sint (Start r) then Some ErrInvalidRange
      else None)"

definition Header :: "Range \<Rightarrow> string" where
  "Header r = Unit r @ ''='' @ fmt_d (sint (Start r)) @ ''-'' @ fmt_d (sint (End r))"

definition ContentRangeHeader :: "Range \<Rightarrow> int64 \<Rightarrow> string" where
  "ContentRangeHeader r tot =
     (if sint tot < 0 then
        Unit r @ '' '' @ fmt_d (sint (Start r)) @ ''-'' @ fmt_d (sint (End r)) @ ''/*''
      else
        Unit r @ '' '' @ fmt_d (sint (Start r)) @ ''-'' @ fmt_d (sint (End r)) @ ''/''
          @ fmt_d (sint tot))"

record 'a RangeResponse =
  Items :: "'a list"
  RStart :: int64
  REnd :: int64
  Total :: int64
  RUnit :: string

definition NewRangeResponse :: "'a list \<Rightarrow> Range \<Rightarrow> int64 \<Rightarrow> 'a RangeResponse" where
  "NewRangeResponse items r tot =
     (let actualEnd = (if length items > 0 then Start r + word_of_nat (length items) - 1
                       else Start r)
      in \<lparr>Items = items, RStart = Start r, REnd = actualEnd, Total = tot, RUnit = Unit r\<rparr>)"

definition ContentRange :: "'a RangeResponse \<Rightarrow> string" where
  "ContentRange r =
     (if length (Items r) = 0 then RUnit r @ '' */'' @ fmt_d (sint (Total r))
      else RUnit r @ '' '' @ fmt_d (sint (RStart r)) @ ''-'' @ fmt_d (sint (REnd r)) @ ''/''
             @ fmt_d (sint (Total r)))"

text \<open>
  The regular expression \<open>^(\w+)=(\d+)-(\d*)$\<close> of \<open>rangeRegex\<close>. In Go's syntax \<open>\w\<close> is
  \<open>[0-9A-Za-z_]\<close>, \<open>\d\<close> is \<open>[0-9]\<close>, and \<open>$\<close> without the flag \<open>m\<close> is the end of the text.
  Neither \<open>=\<close> nor \<open>-\<close> is in either class, so a match splits the text in one way only:
  the longest run of word characters, \<open>=\<close>, the longest run of digits, \<open>-\<close>, and digits to
  the end. \<open>FindStringSubmatch\<close> returns the whole match and the three groups.
\<close>

definition is_word_char :: "char \<Rightarrow> bool" where
  "is_word_char c =
     (c \<in> set ''0123456789ABCDEFGHIJKLMNOPQRSTUVWXYZabcdefghijklmnopqrstuvwxyz_'')"

definition FindStringSubmatch :: "string \<Rightarrow> string list option" where
  "FindStringSubmatch text =
     (let u = takeWhile is_word_char text; r1 = dropWhile is_word_char text
      in case r1 of
           [] \<Rightarrow> None
         | c # r2 \<Rightarrow>
             if u = [] \<or> c \<noteq> CHR ''='' then None
             else
               let s = takeWhile is_digit r2; r3 = dropWhile is_digit r2
               in (case r3 of
                     [] \<Rightarrow> None
                   | d # e \<Rightarrow>
                       if s = [] \<or> d \<noteq> CHR ''-'' \<or> \<not> list_all is_digit e then None
                       else Some [text, u, s, e]))"

definition ParseRangeHeader :: "string \<Rightarrow> Range option \<times> error option" where
  "ParseRangeHeader header =
     (if header = [] then (None, None)
      else
        case FindStringSubmatch header of
          None \<Rightarrow> (None, Some ErrInvalidRange)
        | Some matches \<Rightarrow>
            let u = matches ! 1
            in (case ParseInt (matches ! 2) of
                  None \<Rightarrow> (None, Some ErrInvalidOffset)
                | Some start \<Rightarrow>
                    (case (if matches ! 3 \<noteq> [] then ParseInt (matches ! 3)
                           else Some (start + DefaultPageSize - 1)) of
                       None \<Rightarrow> (None, Some ErrInvalidRange)
                     | Some en \<Rightarrow>
                         let rng = \<lparr>Start = start, End = en, Unit = u\<rparr>
                         in (Some rng, Range_Validate rng))))"

text \<open>
  The grammar as the specification words it: a unit of one or more word characters,
  \<open>=\<close>, a start of one or more digits, \<open>-\<close>, an end of zero or more digits, and nothing
  else.
\<close>

definition range_grammar :: "string \<Rightarrow> string \<Rightarrow> string \<Rightarrow> string \<Rightarrow> bool" where
  "range_grammar header u s e \<longleftrightarrow>
     header = u @ ''='' @ s @ ''-'' @ e \<and>
     u \<noteq> [] \<and> list_all is_word_char u \<and>
     s \<noteq> [] \<and> list_all is_digit s \<and> list_all is_digit e"

section \<open>Cursor codec\<close>

subsection \<open>\<open>base64.URLEncoding\<close>\<close>

text \<open>
  The standard library's \<open>base64.URLEncoding\<close>: the URL-safe alphabet, \<open>=\<close> as padding,
  not strict. A Go string is its bytes, here a list of \<open>char\<close>. \<open>EncodeToString\<close> packs
  three bytes into 24 bits and writes them as four sextets; a last group of one or two
  bytes is written as two or three sextets and padded to four characters.
\<close>

definition encodeURL :: string where
  "encodeURL = ''ABCDEFGHIJKLMNOPQRSTUVWXYZabcdefghijklmnopqrstuvwxyz0123456789-_''"

definition padChar :: char where
  "padChar = CHR ''=''"

definition encode_char :: "nat \<Rightarrow> char" where
  "encode_char n = encodeURL ! (n mod 64)"

fun index_of :: "'a \<Rightarrow> 'a list \<Rightarrow> nat option" where
  "index_of c [] = None"
| "index_of c (x # xs) = (if c = x then Some 0 else map_option Suc (index_of c xs))"

definition decodeMap :: "char \<Rightarrow> nat option" where
  "decodeMap c = index_of c encodeURL"

fun EncodeToString :: "string \<Rightarrow> string" where
  "EncodeToString (a # b # c # src) =
     (let val = of_char a * 65536 + of_char b * 256 + of_char c
      in encode_char (val div 262144) # encode_char (val div 4096) # encode_char (val div 64)
           # encode_char val # EncodeToString src)"
| "EncodeToString [a, b] =
     (let val = of_char a * 65536 + of_char b * 256
      in [encode_char (val div 262144), encode_char (val div 4096), encode_char (val div 64),
          padChar])"
| "EncodeToString [a] =
     (let val = of_char a * 65536
      in [encode_char (val div 262144), encode_char (val div 4096), padChar, padChar])"
| "EncodeToString [] = []"

text \<open>
  \<open>DecodeString\<close> reads quantum by quantum (\<open>decodeQuantum\<close>): \<open>dbuf\<close> holds the sextets of
  the quantum read so far. Carriage returns and line feeds are skipped. A character
  outside the alphabet other than the padding is an error; so is the end of the input
  inside a quantum, padding after fewer than two sextets, a missing second padding
  character, and anything but line ends after the padding. Four sextets give three
  bytes, three give two, two give one.
\<close>

definition is_newline :: "char \<Rightarrow> bool" where
  "is_newline c = (c = CHR 0x0A \<or> c = CHR 0x0D)"

definition quantum_val :: "nat list \<Rightarrow> nat" where
  "quantum_val dbuf = foldl (\<lambda>v d. v * 64 + d) 0 (take 4 (dbuf @ [0, 0, 0, 0]))"

definition quantum_bytes :: "nat list \<Rightarrow> string" where
  "quantum_bytes dbuf =
     (let val = quantum_val dbuf
      in take (length dbuf - 1)
           [char_of (val div 65536), char_of (val div 256), char_of val])"

fun decode_from :: "nat list \<Rightarrow> string \<Rightarrow> string option" where
  "decode_from dbuf [] = (if dbuf = [] then Some [] else None)"
| "decode_from dbuf (c # src) =
     (case decodeMap c of
        Some out \<Rightarrow>
          if length dbuf = 3
          then map_option ((@) (quantum_bytes (dbuf @ [out]))) (decode_from [] src)
          else decode_from (dbuf @ [out]) src
      | None \<Rightarrow>
          if is_newline c then decode_from dbuf src
          else if c \<noteq> padChar then None
          else if length dbuf < 2 then None
          else if length dbuf = 2 then
            (case dropWhile is_newline src of
               [] \<Rightarrow> None
             | d # r \<Rightarrow>
                 if d \<noteq> padChar then None
                 else if dropWhile is_newline r \<noteq> [] then None
                 else Some (quantum_bytes dbuf))
          else if dropWhile is_newline src \<noteq> [] then None
          else Some (quantum_bytes dbuf))"

definition DecodeString :: "string \<Rightarrow> string option" where
  "DecodeString s = decode_from [] s"

text \<open>A token without its trailing padding characters.\<close>

definition strip_padding :: "string \<Rightarrow> string" where
  "strip_padding s = rev (dropWhile (\<lambda>c. c = padChar) (rev s))"

subsection \<open>\<open>EncodeCursor\<close> and \<open>DecodeCursor\<close>\<close>

text \<open>
  The two functions are generic in the payload and leave its serialization to
  \<open>encoding/json\<close>, which the specification treats as an external collaborator. They take
  it as a parameter: \<open>Marshal\<close> is \<open>json.Marshal\<close> at the type \<open>*CursorData[T]\<close> and
  \<open>Unmarshal\<close> is \<open>json.Unmarshal\<close> into a fresh \<open>CursorData[T]\<close>, each returning its error
  on the left. The payload type \<open>'p\<close> stands for \<open>CursorData[T]\<close>; decoding at the type of
  encoding is the two parameters having the same \<open>'p\<close>. A result is the pair that the Go
  function returns; a nil pointer and a nil error are \<open>None\<close>.
\<close>

definition EncodeCursor :: "('p \<Rightarrow> 'e + string) \<Rightarrow> 'p option \<Rightarrow> string \<times> 'e option" where
  "EncodeCursor Marshal data =
     (case data of
        None \<Rightarrow> ([], None)
      | Some d \<Rightarrow>
          (case Marshal d of
             Inl err \<Rightarrow> ([], Some err)
           | Inr b \<Rightarrow> (EncodeToString b, None)))"

definition DecodeCursor :: "(string \<Rightarrow> 'e + 'p) \<Rightarrow> string \<Rightarrow> 'p option \<times> error option" where
  "DecodeCursor Unmarshal cursor =
     (if cursor = [] then (None, None)
      else
        case DecodeString cursor of
          None \<Rightarrow> (None, Some ErrInvalidCursor)
        | Some b \<Rightarrow>
            (case Unmarshal b of
               Inl err \<Rightarrow> (None, Some ErrInvalidCursor)
             | Inr data \<Rightarrow> (Some data, None)))"

text \<open>
  A payload is representable when the structured encoding can carry it: \<open>Marshal\<close>
  serializes it to a document, which as every JSON document is not empty, and
  \<open>Unmarshal\<close> at the same type reads that document back as the same payload.
\<close>

definition representable :: "('p \<Rightarrow> 'e + string) \<Rightarrow> (string \<Rightarrow> 'e + 'p) \<Rightarrow> 'p \<Rightarrow> bool" where
  "representable Marshal Unmarshal p \<longleftrightarrow>
     (case Marshal p of
        Inl err \<Rightarrow> False
      | Inr b \<Rightarrow> b \<noteq> [] \<and> Unmarshal b = Inr p)"

subsection \<open>A JSON codec for \<open>CursorData\<close>\<close>

text \<open>
  To run the two functions on concrete payloads, the collaborator is instantiated by a
  model of \<open>encoding/json\<close> at \<open>CursorData[T]\<close>. The value type \<open>T\<close> and \<open>time.Time\<close> are type
  parameters; for each the codec is given what \<open>encoding/json\<close> needs of the type: whether
  a value is left out (\<open>omitempty\<close>, \<open>omitzero\<close>), the zero value, the encoder, and the
  decoder, which reads a value at the head of a text and returns what follows it.
  \<open>json_Marshal\<close> writes the document that \<open>json.Marshal\<close> writes: the keys \<open>id\<close>, \<open>v\<close>,
  \<open>ts\<close>, \<open>o\<close> in the order of the struct, each left out when its field is empty, and
  strings escaped as \<open>encoding/json\<close> escapes them. \<open>json_Unmarshal\<close> reads an object with
  these keys, in any order, repeated or not, with white space between the tokens;
  an object with another key and the literal \<open>null\<close>, which \<open>json.Unmarshal\<close> accepts, are
  beyond this model and are rejected by it.
\<close>
record ('v, 't) CursorData =
  ID :: string
  Value :: 'v
  Timestamp :: 't
  COffset :: go_int

datatype json_error = UnsupportedValue | InvalidJSON

record 'a field_codec =
  fc_empty :: "'a \<Rightarrow> bool"
  fc_zero :: 'a
  fc_enc :: "'a \<Rightarrow> string option"
  fc_dec :: "string \<Rightarrow> ('a \<times> string) option"

text \<open>The field \<open>Offset\<close> is \<open>COffset\<close> here; \<open>Offset\<close> is the method of the offset paginator.\<close>

definition dquote :: char where "dquote = CHR 0x22"
definition backslash :: char where "backslash = CHR 0x5C"

definition hex_digit :: "nat \<Rightarrow> char" where
  "hex_digit n = ''0123456789abcdef'' ! n"

definition escape_ascii :: "char \<Rightarrow> string" where
  "escape_ascii b =
     (let n = of_char b :: nat
      in if b = backslash \<or> b = dquote then [backslash, b]
         else if n = 8 then [backslash, CHR ''b'']
         else if n = 12 then [backslash, CHR ''f'']
         else if n = 10 then [backslash, CHR ''n'']
         else if n = 13 then [backslash, CHR ''r'']
         else if n = 9 then [backslash, CHR ''t'']
         else if n < 32 \<or> b = CHR ''<'' \<or> b = CHR ''>'' \<or> b = CHR ''&'' then
           [backslash, CHR ''u'', CHR ''0'', CHR ''0'', hex_digit (n div 16), hex_digit (n mod 16)]
         else [b])"

definition is_cont :: "char \<Rightarrow> bool" where
  "is_cont c = (128 \<le> (of_char c :: nat) \<and> (of_char c :: nat) < 192)"

definition rune_size :: "string \<Rightarrow> nat" where
  "rune_size s =
     (case s of
        [] \<Rightarrow> 0
      | b0 # r \<Rightarrow>
          let x = of_char b0 :: nat
          in if 194 \<le> x \<and> x \<le> 223 then
               (case r of b1 # _ \<Rightarrow> if is_cont b1 then 2 else 0 | _ \<Rightarrow> 0)
             else if 224 \<le> x \<and> x \<le> 239 then
               (case r of
                  b1 # b2 # _ \<Rightarrow>
                    if (if x = 224 then 160 else 128) \<le> (of_char b1 :: nat)
                       \<and> (of_char b1 :: nat) \<le> (if x = 237 then 159 else 191) \<and> is_cont b2
                    then 3 else 0
                | _ \<Rightarrow> 0)
             else if 240 \<le> x \<and> x \<le> 244 then
               (case r of
                  b1 # b2 # b3 # _ \<Rightarrow>
                    if (if x = 240 then 144 else 128) \<le> (of_char b1 :: nat)
                       \<and> (of_char b1 :: nat) \<le> (if x = 244 then 143 else 191)
                       \<and> is_cont b2 \<and> is_cont b3
                    then 4 else 0
                | _ \<Rightarrow> 0)
             else 0)"

function quote_from :: "string \<Rightarrow> string" where
  "quote_from [] = []"
| "quote_from (b # r) =
     (if (of_char b :: nat) < 128 then escape_ascii b @ quote_from r
      else
        let n = rune_size (b # r)
        in if n = 0 then [backslash, CHR ''u'', CHR ''f'', CHR ''f'', CHR ''f'', CHR ''d''] @ quote_from r
           else if take 3 (b # r) = [CHR 0xE2, CHR 0x80, CHR 0xA8] then
             [backslash, CHR ''u'', CHR ''2'', CHR ''0'', CHR ''2'', CHR ''8''] @ quote_from (drop 2 r)
           else if take 3 (b # r) = [CHR 0xE2, CHR 0x80, CHR 0xA9] then
             [backslash, CHR ''u'', CHR ''2'', CHR ''0'', CHR ''2'', CHR ''9''] @ quote_from (drop 2 r)
           else take n (b # r) @ quote_from (drop (n - 1) r))"
  by pat_completeness auto
termination
  by (relation "measure length") auto

definition json_string :: "string \<Rightarrow> string" where
  "json_string s = dquote # quote_from s @ [dquote]"

fun join_fields :: "string list \<Rightarrow> string" where
  "join_fields [] = []"
| "join_fields [f] = f"
| "join_fields (f # g # fs) = f @ CHR '','' # join_fields (g # fs)"

definition key_text :: "string \<Rightarrow> string" where
  "key_text k = dquote # k @ [dquote, CHR '':'']"

definition json_Marshal ::
  "'v field_codec \<Rightarrow> 't field_codec \<Rightarrow> ('v, 't) CursorData \<Rightarrow> json_error + string" where
  "json_Marshal vc tc data =
     (let id_field = (if ID data = [] then [] else [key_text ''id'' @ json_string (ID data)]);
          o_field = (if COffset data = 0 then []
                     else [key_text ''o'' @ fmt_d (sint (COffset data))])
      in case (if fc_empty vc (Value data) then Some []
               else map_option (\<lambda>j. [key_text ''v'' @ j]) (fc_enc vc (Value data))) of
           None \<Rightarrow> Inl UnsupportedValue
         | Some v_field \<Rightarrow>
             (case (if fc_empty tc (Timestamp data) then Some []
                    else map_option (\<lambda>j. [key_text ''ts'' @ j]) (fc_enc tc (Timestamp data))) of
                None \<Rightarrow> Inl UnsupportedValue
              | Some ts_field \<Rightarrow>
                  Inr (CHR 0x7B # join_fields (id_field @ v_field @ ts_field @ o_field)
                         @ [CHR 0x7D])))"


definition is_space :: "char \<Rightarrow> bool" where
  "is_space c = (c = CHR 0x20 \<or> c = CHR 0x09 \<or> c = CHR 0x0A \<or> c = CHR 0x0D)"

definition skip_ws :: "string \<Rightarrow> string" where
  "skip_ws s = dropWhile is_space s"

definition hex_val :: "char \<Rightarrow> nat option" where
  "hex_val c =
     (case index_of c ''0123456789abcdef'' of
        Some n \<Rightarrow> Some n
      | None \<Rightarrow> map_option (\<lambda>n. n + 10) (index_of c ''ABCDEF''))"

definition hex4 :: "string \<Rightarrow> nat option" where
  "hex4 s =
     (case map hex_val s of
        [Some a, Some b, Some c, Some d] \<Rightarrow> Some (((a * 16 + b) * 16 + c) * 16 + d)
      | _ \<Rightarrow> None)"

definition utf8_encode :: "nat \<Rightarrow> string" where
  "utf8_encode cp =
     (if cp < 128 then [char_of cp]
      else if cp < 2048 then [char_of (192 + cp div 64), char_of (128 + cp mod 64)]
      else if cp < 65536 then
        [char_of (224 + cp div 4096), char_of (128 + cp div 64 mod 64), char_of (128 + cp mod 64)]
      else
        [char_of (240 + cp div 262144), char_of (128 + cp div 4096 mod 64),
         char_of (128 + cp div 64 mod 64), char_of (128 + cp mod 64)])"

definition unescape :: "char \<Rightarrow> char option" where
  "unescape e =
     (if e = dquote \<or> e = backslash \<or> e = CHR ''/'' then Some e
      else if e = CHR ''b'' then Some (CHR 0x08)
      else if e = CHR ''f'' then Some (CHR 0x0C)
      else if e = CHR ''n'' then Some (CHR 0x0A)
      else if e = CHR ''r'' then Some (CHR 0x0D)
      else if e = CHR ''t'' then Some (CHR 0x09)
      else None)"

definition add_text :: "string \<Rightarrow> (string \<times> string) option \<Rightarrow> (string \<times> string) option" where
  "add_text t = map_option (\<lambda>(s, rest). (t @ s, rest))"

function unquote_from :: "string \<Rightarrow> (string \<times> string) option" where
  "unquote_from [] = None"
| "unquote_from (c # r) =
     (if c = dquote then Some ([], r)
      else if c = backslash then
        (case r of
           [] \<Rightarrow> None
         | e # r' \<Rightarrow>
             if e = CHR ''u'' then
               (case hex4 (take 4 r') of
                  None \<Rightarrow> None
                | Some cp \<Rightarrow>
                    if 55296 \<le> cp \<and> cp < 57344 then
                      (case (if cp < 56320 \<and> take 2 (drop 4 r') = [backslash, CHR ''u'']
                             then hex4 (take 4 (drop 6 r')) else None) of
                         Some lo \<Rightarrow>
                           if 56320 \<le> lo \<and> lo < 57344 then
                             add_text (utf8_encode (65536 + (cp - 55296) * 1024 + (lo - 56320)))
                               (unquote_from (drop 10 r'))
                           else add_text (utf8_encode 65533) (unquote_from (drop 4 r'))
                       | None \<Rightarrow> add_text (utf8_encode 65533) (unquote_from (drop 4 r')))
                    else add_text (utf8_encode cp) (unquote_from (drop 4 r')))
             else
               (case unescape e of
                  None \<Rightarrow> None
                | Some ch \<Rightarrow> add_text [ch] (unquote_from r')))
      else if (of_char c :: nat) < 32 then None
      else if (of_char c :: nat) < 128 then add_text [c] (unquote_from r)
      else
        let n = rune_size (c # r)
        in if n = 0 then add_text (utf8_encode 65533) (unquote_from r)
           else add_text (take n (c # r)) (unquote_from (drop (n - 1) r)))"
  by pat_completeness auto
termination
  by (relation "measure length") auto

text \<open>A JSON number read into an \<open>int\<close>.\<close>

definition json_int :: "string \<Rightarrow> (go_int \<times> string) option" where
  "json_int s =
     (let sign = takeWhile (\<lambda>c. c = CHR ''-'') (take 1 s);
          r = drop (length sign) s;
          ds = takeWhile is_digit r;
          rest = dropWhile is_digit r
      in if ds = [] \<or> (length ds > 1 \<and> hd ds = CHR ''0'') then None
         else map_option (\<lambda>n. (n, rest)) (ParseInt (sign @ ds)))"

definition zero_data :: "'v field_codec \<Rightarrow> 't field_codec \<Rightarrow> ('v, 't) CursorData" where
  "zero_data vc tc = \<lparr>ID = [], Value = fc_zero vc, Timestamp = fc_zero tc, COffset = 0\<rparr>"

definition json_field ::
  "'v field_codec \<Rightarrow> 't field_codec \<Rightarrow> string \<Rightarrow> ('v, 't) CursorData \<Rightarrow> string
     \<Rightarrow> (('v, 't) CursorData \<times> string) option" where
  "json_field vc tc key data s =
     (if key = ''id'' then
        (case s of
           [] \<Rightarrow> None
         | c # r \<Rightarrow> if c = dquote
                    then map_option (\<lambda>(x, rest). (data\<lparr>ID := x\<rparr>, rest)) (unquote_from r)
                    else None)
      else if key = ''v'' then map_option (\<lambda>(x, rest). (data\<lparr>Value := x\<rparr>, rest)) (fc_dec vc s)
      else if key = ''ts'' then
        map_option (\<lambda>(x, rest). (data\<lparr>Timestamp := x\<rparr>, rest)) (fc_dec tc s)
      else if key = ''o'' then map_option (\<lambda>(x, rest). (data\<lparr>COffset := x\<rparr>, rest)) (json_int s)
      else None)"

fun json_members ::
  "nat \<Rightarrow> 'v field_codec \<Rightarrow> 't field_codec \<Rightarrow> ('v, 't) CursorData \<Rightarrow> string
     \<Rightarrow> ('v, 't) CursorData option" where
  "json_members 0 vc tc data s = None"
| "json_members (Suc fuel) vc tc data s =
     (case s of
        [] \<Rightarrow> None
      | c # r \<Rightarrow>
          if c \<noteq> dquote then None
          else
            (case unquote_from r of
               None \<Rightarrow> None
             | Some (key, r1) \<Rightarrow>
                 (case skip_ws r1 of
                    [] \<Rightarrow> None
                  | c1 # r2 \<Rightarrow>
                      if c1 \<noteq> CHR '':'' then None
                      else
                        (case json_field vc tc key data (skip_ws r2) of
                           None \<Rightarrow> None
                         | Some (data', r3) \<Rightarrow>
                             (case skip_ws r3 of
                                [] \<Rightarrow> None
                              | c3 # r4 \<Rightarrow>
                                  if c3 = CHR '','' then json_members fuel vc tc data' (skip_ws r4)
                                  else if c3 = CHR 0x7D \<and> skip_ws r4 = [] then Some data'
                                  else None)))))"

definition json_Unmarshal ::
  "'v field_codec \<Rightarrow> 't field_codec \<Rightarrow> string \<Rightarrow> json_error + ('v, 't) CursorData" where
  "json_Unmarshal vc tc b =
     (case skip_ws b of
        [] \<Rightarrow> Inl InvalidJSON
      | c # r \<Rightarrow>
          if c \<noteq> CHR 0x7B then Inl InvalidJSON
          else
            (case skip_ws r of
               [] \<Rightarrow> Inl InvalidJSON
             | c1 # r1 \<Rightarrow>
                 if c1 = CHR 0x7D then
                   (if skip_ws r1 = [] then Inr (zero_data vc tc) else Inl InvalidJSON)
                 else
                   (case json_members (length b) vc tc (zero_data vc tc) (c1 # r1) of
                      None \<Rightarrow> Inl InvalidJSON
                    | Some data \<Rightarrow> Inr data)))"

definition int_codec :: "go_int field_codec" where
  "int_codec = \<lparr>fc_empty = (\<lambda>v. v = 0), fc_zero = 0,
     fc_enc = (\<lambda>v. Some (fmt_d (sint v))), fc_dec = json_int\<rparr>"

definition no_time :: "unit field_codec" where
  "no_time = \<lparr>fc_empty = (\<lambda>t. True), fc_zero = (), fc_enc = (\<lambda>t. None), fc_dec = (\<lambda>s. None)\<rparr>"

text \<open>
  What makes a payload serializable by this codec. A Go string is written unchanged only
  when it is valid UTF-8 (\<open>encoding/json\<close> replaces every other byte by U+FFFD). A value of
  a field with its own codec must be the zero value when the codec leaves it out, and
  otherwise must be encoded to a text that does not start with white space and that the
  decoder reads back to the same value, whatever follows the separator after it.
\<close>

function valid_utf8 :: "string \<Rightarrow> bool" where
  "valid_utf8 [] = True"
| "valid_utf8 (b # r) =
     (if (of_char b :: nat) < 128 then valid_utf8 r
      else rune_size (b # r) \<noteq> 0 \<and> valid_utf8 (drop (rune_size (b # r) - 1) r))"
  by pat_completeness auto
termination
  by (relation "measure length") auto

definition field_ok :: "'a field_codec \<Rightarrow> 'a \<Rightarrow> bool" where
  "field_ok c v \<longleftrightarrow>
     (if fc_empty c v then v = fc_zero c
      else case fc_enc c v of
             None \<Rightarrow> False
           | Some j \<Rightarrow>
               j \<noteq> [] \<and> \<not> is_space (hd j) \<and>
               (\<forall>rest. fc_dec c (j @ CHR '','' # rest) = Some (v, CHR '','' # rest) \<and>
                       fc_dec c (j @ CHR 0x7D # rest) = Some (v, CHR 0x7D # rest)))"

definition is_sep :: "char \<Rightarrow> bool" where
  "is_sep c = (c = CHR '','' \<or> c = CHR 0x7D)"

text \<open>
  What \<open>json.Unmarshal\<close> reads back of a string that \<open>json.Marshal\<close> wrote: the string
  with every byte that is not part of a valid UTF-8 sequence replaced by U+FFFD, the three
  bytes \<open>EF BF BD\<close>.
\<close>

function coerce_utf8 :: "string \<Rightarrow> string" where
  "coerce_utf8 [] = []"
| "coerce_utf8 (b # r) =
     (if (of_char b :: nat) < 128 then b # coerce_utf8 r
      else
        let n = rune_size (b # r)
        in if n = 0 then utf8_encode 65533 @ coerce_utf8 r
           else take n (b # r) @ coerce_utf8 (drop (n - 1) r))"
  by pat_completeness auto
termination
  by (relation "measure length") auto

section \<open>Proofs: bounds and clamping\<close>

lemma sint_consts [simp]:
  "sint DefaultPage = 1" "sint DefaultPageSize = 20"
  "sint MaxPageSize = 1000" "sint MinPageSize = 1"
  by (simp_all add: DefaultPage_def DefaultPageSize_def MaxPageSize_def MinPageSize_def)

lemma Page_WithPage: "Page (WithPage p n) = (if sint n < 1 then DefaultPage else n)"
  by (simp add: WithPage_def Clone_def)

lemma PageSize_WithPage [simp]: "PageSize (WithPage p n) = PageSize p"
  by (simp add: WithPage_def Clone_def)

lemma Page_WithPageSize [simp]: "Page (WithPageSize p n) = Page p"
  by (simp add: WithPageSize_def Clone_def Let_def)

lemma PageSize_WithPageSize:
  "PageSize (WithPageSize p n) =
     (if sint n < 1 then DefaultPageSize else if 1000 < sint n then MaxPageSize else n)"
  by (simp add: WithPageSize_def Clone_def Let_def)

lemma Limit_WithLimit:
  "Limit (WithLimit c n) =
     (if sint n < 1 then DefaultPageSize else if 1000 < sint n then MaxPageSize else n)"
  by (simp add: WithLimit_def CClone_def Let_def)

text \<open>
  Claim C6. \<open>WithLimit(n)\<close> on a cursor paginator and \<open>WithPageSize(n)\<close> on an offset
  paginator set \<open>DefaultPageSize\<close> when \<open>n < MinPageSize\<close>, \<open>MaxPageSize\<close> when
  \<open>n > MaxPageSize\<close>, and \<open>n\<close> itself when \<open>MinPageSize <= n <= MaxPageSize\<close>.
\<close>

theorem setters_clamp:
  "(sint n < sint MinPageSize \<longrightarrow>
      Limit (WithLimit c n) = DefaultPageSize \<and> PageSize (WithPageSize p n) = DefaultPageSize) \<and>
   (sint n > sint MaxPageSize \<longrightarrow>
      Limit (WithLimit c n) = MaxPageSize \<and> PageSize (WithPageSize p n) = MaxPageSize) \<and>
   (sint MinPageSize \<le> sint n \<and> sint n \<le> sint MaxPageSize \<longrightarrow>
      Limit (WithLimit c n) = n \<and> PageSize (WithPageSize p n) = n)"
  by (simp add: Limit_WithLimit PageSize_WithPageSize)

theorem setters_clamp_witness:
  "sint (0 :: go_int) < sint MinPageSize \<and>
   Limit (WithLimit NewCursor 0) = DefaultPageSize \<and> PageSize (WithPageSize New 0) = DefaultPageSize \<and>
   sint (2000 :: go_int) > sint MaxPageSize \<and>
   Limit (WithLimit NewCursor 2000) = MaxPageSize \<and> PageSize (WithPageSize New 2000) = MaxPageSize \<and>
   sint MinPageSize \<le> sint (50 :: go_int) \<and> sint (50 :: go_int) \<le> sint MaxPageSize \<and>
   Limit (WithLimit NewCursor 50) = 50 \<and> PageSize (WithPageSize New 50) = 50"
  using setters_clamp [of 0 NewCursor New] setters_clamp [of 2000 NewCursor New]
    setters_clamp [of 50 NewCursor New]
  by simp


lemma in_bounds_New: "in_bounds New"
  by (simp add: in_bounds_def New_def)

lemma in_bounds_WithPage: "in_bounds p \<Longrightarrow> in_bounds (WithPage p n)"
  by (simp add: in_bounds_def Page_WithPage)

lemma in_bounds_WithPageSize: "in_bounds p \<Longrightarrow> in_bounds (WithPageSize p n)"
  by (simp add: in_bounds_def PageSize_WithPageSize)

lemma in_bounds_FromQuery: "in_bounds (FromQuery q)"
  by (simp add: FromQuery_def Let_def in_bounds_New in_bounds_WithPage in_bounds_WithPageSize
      split: option.split)

lemma in_bounds_FromMap: "in_bounds (FromMap f64 f32 m)"
  by (simp add: FromMap_def Let_def in_bounds_New in_bounds_WithPage in_bounds_WithPageSize
      split: option.split)

lemma in_bounds_construct: "in_bounds (construct src)"
  by (cases src)
    (simp_all add: in_bounds_New NewWithSize_def NewFromValues_def in_bounds_WithPage
      in_bounds_WithPageSize in_bounds_FromQuery in_bounds_FromMap)

lemma in_bounds_chain: "in_bounds p \<Longrightarrow> in_bounds (chain p ops)"
  unfolding chain_def
proof (induction ops arbitrary: p)
  case Nil then show ?case by simp
next
  case (Cons x xs)
  have "in_bounds (apply_setter p x)"
    using Cons.prems by (cases x) (simp_all add: in_bounds_WithPage in_bounds_WithPageSize)
  then show ?case using Cons.IH by simp
qed

lemma Validate_in_bounds: "in_bounds p \<Longrightarrow> Validate p = None"
  by (simp add: in_bounds_def Validate_def)

text \<open>
  Claim C9. Every paginator that \<open>New\<close>, \<open>NewWithSize\<close>, \<open>NewFromValues\<close>, \<open>FromQuery\<close> or
  \<open>FromMap\<close> returns, and every paginator reached from one of them by any sequence of
  \<open>WithPage\<close> and \<open>WithPageSize\<close>, has \<open>Page >= 1\<close> and
  \<open>MinPageSize <= PageSize <= MaxPageSize\<close>, and \<open>Validate\<close> returns nil on it.
\<close>

theorem produced_paginator_valid:
  "in_bounds (chain (construct src) ops) \<and> Validate (chain (construct src) ops) = None"
  using in_bounds_chain [OF in_bounds_construct] Validate_in_bounds by blast


section \<open>Proofs: copy on write\<close>

lemma Clone_ptr_ok:
  "load s p = Inr v \<Longrightarrow> Clone_ptr s p = Inr (s @ [\<lparr>Page = Page v, PageSize = PageSize v\<rparr>], Some (length s))"
  by (simp add: Clone_ptr_def alloc_def)

lemma CClone_ptr_ok:
  "load s c = Inr v \<Longrightarrow>
   CClone_ptr s c = Inr (s @ [\<lparr>Cursor = Cursor v, Limit = Limit v, Forward = Forward v\<rparr>], Some (length s))"
  by (simp add: CClone_ptr_def alloc_def)

lemma assign_last:
  "assign (s @ [v]) (Some (length s)) f = Inr (s @ [f v])"
  by (simp add: assign_def)

lemma new_instance_append:
  "load s p = Inr v \<Longrightarrow> new_instance s p (s @ [w]) (Some (length s)) w"
  by (auto simp add: new_instance_def load_def split: option.splits if_splits)

lemma WithPage_ptr_ok:
  "load s p = Inr v \<Longrightarrow>
   WithPage_ptr s p n = Inr (s @ [WithPage v n], Some (length s))"
  by (simp add: WithPage_ptr_def Clone_ptr_ok assign_last WithPage_def Clone_def Let_def)

lemma WithPageSize_ptr_ok:
  "load s p = Inr v \<Longrightarrow>
   WithPageSize_ptr s p n = Inr (s @ [WithPageSize v n], Some (length s))"
  by (simp add: WithPageSize_ptr_def Clone_ptr_ok assign_last WithPageSize_def Clone_def Let_def)

lemma WithLimit_ptr_ok:
  "load s p = Inr v \<Longrightarrow>
   WithLimit_ptr s p n = Inr (s @ [WithLimit v n], Some (length s))"
  by (simp add: WithLimit_ptr_def CClone_ptr_ok assign_last WithLimit_def CClone_def Let_def)

lemma WithCursor_ptr_ok:
  "load s p = Inr v \<Longrightarrow>
   WithCursor_ptr s p n = Inr (s @ [WithCursor v n], Some (length s))"
  by (simp add: WithCursor_ptr_def CClone_ptr_ok assign_last WithCursor_def CClone_def Let_def)

lemma WithForward_ptr_ok:
  "load s p = Inr v \<Longrightarrow>
   WithForward_ptr s p n = Inr (s @ [WithForward v n], Some (length s))"
  by (simp add: WithForward_ptr_def CClone_ptr_ok assign_last WithForward_def CClone_def Let_def)

lemma new_instance_result:
  assumes "load s p = Inr v" and "op = Inr (s @ [v'], Some (length s))"
  shows "\<exists>s' q. op = Inr (s', q) \<and> new_instance s p s' q v' \<and> load s' p = Inr v"
proof -
  have "load (s @ [v']) p = Inr v"
    using assms(1) by (auto simp add: load_def nth_append split: option.splits if_splits)
  then show ?thesis
    using assms new_instance_append [OF assms(1), of v'] by blast
qed

text \<open>
  Claim C8. Called on a valid receiver, each of \<open>WithPage\<close>, \<open>WithPageSize\<close>, \<open>WithLimit\<close>,
  \<open>WithCursor\<close> and \<open>WithForward\<close> returns a pointer to a newly allocated object, distinct
  from the receiver; every object allocated before the call, the receiver included, is
  unchanged after it; and every field of the new object other than the one being set
  equals the receiver's.
\<close>

theorem with_ops_copy_on_write:
  assumes p: "load ps p = Inr v" and c: "load cs c = Inr w"
  shows "(\<exists>ps' q. WithPage_ptr ps p page = Inr (ps', q) \<and>
            new_instance ps p ps' q (WithPage v page) \<and> load ps' p = Inr v) \<and>
         PageSize (WithPage v page) = PageSize v \<and>
         (\<exists>ps' q. WithPageSize_ptr ps p sz = Inr (ps', q) \<and>
            new_instance ps p ps' q (WithPageSize v sz) \<and> load ps' p = Inr v) \<and>
         Page (WithPageSize v sz) = Page v \<and>
         (\<exists>cs' q. WithLimit_ptr cs c limit = Inr (cs', q) \<and>
            new_instance cs c cs' q (WithLimit w limit) \<and> load cs' c = Inr w) \<and>
         Cursor (WithLimit w limit) = Cursor w \<and> Forward (WithLimit w limit) = Forward w \<and>
         (\<exists>cs' q. WithCursor_ptr cs c cursor = Inr (cs', q) \<and>
            new_instance cs c cs' q (WithCursor w cursor) \<and> load cs' c = Inr w) \<and>
         Limit (WithCursor w cursor) = Limit w \<and> Forward (WithCursor w cursor) = Forward w \<and>
         (\<exists>cs' q. WithForward_ptr cs c forward = Inr (cs', q) \<and>
            new_instance cs c cs' q (WithForward w forward) \<and> load cs' c = Inr w) \<and>
         Cursor (WithForward w forward) = Cursor w \<and> Limit (WithForward w forward) = Limit w"
proof -
  note a = new_instance_result [OF p WithPage_ptr_ok [OF p]]
  note b = new_instance_result [OF p WithPageSize_ptr_ok [OF p]]
  note d = new_instance_result [OF c WithLimit_ptr_ok [OF c]]
  note e = new_instance_result [OF c WithCursor_ptr_ok [OF c]]
  note f = new_instance_result [OF c WithForward_ptr_ok [OF c]]
  have g: "Cursor (WithLimit w limit) = Cursor w \<and> Forward (WithLimit w limit) = Forward w"
    "Limit (WithCursor w cursor) = Limit w \<and> Forward (WithCursor w cursor) = Forward w"
    "Cursor (WithForward w forward) = Cursor w \<and> Limit (WithForward w forward) = Limit w"
    by (simp_all add: WithLimit_def WithCursor_def WithForward_def CClone_def Let_def)
  show ?thesis
    using a b d e f g by simp
qed

theorem with_ops_copy_on_write_witness:
  "load [New] (Some 0) = Inr New \<and> load [NewCursor] (Some 0) = Inr NewCursor \<and>
   (\<exists>ps' q. WithPage_ptr [New] (Some 0) 3 = Inr (ps', q) \<and>
      new_instance [New] (Some 0) ps' q (WithPage New 3) \<and> load ps' (Some 0) = Inr New) \<and>
   (\<exists>ps' q. WithPageSize_ptr [New] (Some 0) 50 = Inr (ps', q) \<and>
      new_instance [New] (Some 0) ps' q (WithPageSize New 50) \<and> load ps' (Some 0) = Inr New) \<and>
   (\<exists>cs' q. WithLimit_ptr [NewCursor] (Some 0) 50 = Inr (cs', q) \<and>
      new_instance [NewCursor] (Some 0) cs' q (WithLimit NewCursor 50) \<and>
      load cs' (Some 0) = Inr NewCursor) \<and>
   (\<exists>cs' q. WithCursor_ptr [NewCursor] (Some 0) ''abc'' = Inr (cs', q) \<and>
      new_instance [NewCursor] (Some 0) cs' q (WithCursor NewCursor ''abc'') \<and>
      load cs' (Some 0) = Inr NewCursor) \<and>
   (\<exists>cs' q. WithForward_ptr [NewCursor] (Some 0) False = Inr (cs', q) \<and>
      new_instance [NewCursor] (Some 0) cs' q (WithForward NewCursor False) \<and>
      load cs' (Some 0) = Inr NewCursor)"
proof -
  have p: "load [New] (Some 0) = Inr New" and c: "load [NewCursor] (Some 0) = Inr NewCursor"
    by (simp_all add: load_def)
  show ?thesis
    using p c with_ops_copy_on_write [OF p c, of 3 50 50 "''abc''" False]
    by blast
qed


section \<open>Proofs: offset arithmetic\<close>

text \<open>
  Claim C4. \<open>Offset()\<close> is \<open>(Page - 1) * PageSize\<close> without overflow. The code multiplies in
  \<open>int64\<close>, which is as wide as \<open>int\<close> here, so the product wraps around for a large
  page: the query \<open>page=9223372036854775807&page_size=500\<close> gives a paginator that
  \<open>Validate\<close> accepts and whose offset is \<open>-1000\<close>.
\<close>

theorem Offset_wraps_around:
  "FromQuery [''page'' \<mapsto> [''9223372036854775807''], ''page_size'' \<mapsto> [''500'']]
     = \<lparr>Page = 9223372036854775807, PageSize = 500\<rparr> \<and>
   Validate \<lparr>Page = 9223372036854775807, PageSize = 500\<rparr> = None \<and>
   sint (Offset \<lparr>Page = 9223372036854775807, PageSize = 500\<rparr>) = - 1000 \<and>
   (sint (9223372036854775807 :: go_int) - 1) * sint (500 :: go_int) = 4611686018427387903000"
  by (simp add: FromQuery_def Get_def Atoi_def ParseInt_def is_digit_def dec_value_def
      digit_val_def WithPage_def WithPageSize_def Clone_def New_def Let_def Validate_def
      Offset_def)

section \<open>Proofs: the range header\<close>

lemma not_word_eq [simp]: "\<not> is_word_char CHR ''=''"
  by (simp add: is_word_char_def)

lemma not_digit_dash [simp]: "\<not> is_digit CHR ''-''"
  by (simp add: is_digit_def)

lemma not_digit_sign: "is_digit c \<Longrightarrow> c \<noteq> CHR ''+'' \<and> c \<noteq> CHR ''-''"
  by (auto simp add: is_digit_def)

lemma FindStringSubmatch_grammar:
  assumes "range_grammar h u s e"
  shows "FindStringSubmatch h = Some [h, u, s, e]"
proof -
  from assms have h: "h = u @ CHR ''='' # (s @ CHR ''-'' # e)"
    and u: "u \<noteq> []" "\<forall>x\<in>set u. is_word_char x"
    and s: "s \<noteq> []" "\<forall>x\<in>set s. is_digit x" and e: "list_all is_digit e"
    by (simp_all add: range_grammar_def list_all_iff)
  have 1: "takeWhile is_word_char h = u" "dropWhile is_word_char h = CHR ''='' # (s @ CHR ''-'' # e)"
    using u(2) by (simp_all add: h)
  have 2: "takeWhile is_digit (s @ CHR ''-'' # e) = s" "dropWhile is_digit (s @ CHR ''-'' # e) = CHR ''-'' # e"
    using s(2) by simp_all
  show ?thesis
    using u(1) s(1) e by (simp add: FindStringSubmatch_def 1 2)
qed

lemma FindStringSubmatch_Some:
  assumes "FindStringSubmatch h = Some m"
  shows "\<exists>u s e. m = [h, u, s, e] \<and> range_grammar h u s e"
proof -
  let ?u = "takeWhile is_word_char h"
  obtain c r2 where r1: "dropWhile is_word_char h = c # r2"
    using assms by (cases "dropWhile is_word_char h") (simp_all add: FindStringSubmatch_def)
  let ?s = "takeWhile is_digit r2"
  have c: "?u \<noteq> []" "c = CHR ''=''"
    using assms r1 by (auto simp add: FindStringSubmatch_def Let_def split: if_splits)
  obtain d e where r3: "dropWhile is_digit r2 = d # e"
    using assms r1 c by (cases "dropWhile is_digit r2") (simp_all add: FindStringSubmatch_def)
  have d: "?s \<noteq> []" "d = CHR ''-''" "list_all is_digit e" "m = [h, ?u, ?s, e]"
    using assms r1 r3 c by (auto simp add: FindStringSubmatch_def Let_def split: if_splits)
  have "h = ?u @ dropWhile is_word_char h" by simp
  moreover have "r2 = ?s @ dropWhile is_digit r2" by simp
  ultimately have "h = ?u @ ''='' @ ?s @ ''-'' @ e"
    using r1 r3 c d by simp
  moreover have "list_all is_word_char ?u" "list_all is_digit ?s"
    by (auto simp add: list_all_iff dest: set_takeWhileD)
  ultimately have "range_grammar h ?u ?s e"
    using c d by (simp add: range_grammar_def)
  then show ?thesis using d by blast
qed

lemma FindStringSubmatch_None:
  "(\<forall>u s e. \<not> range_grammar h u s e) \<Longrightarrow> FindStringSubmatch h = None"
  using FindStringSubmatch_Some [of h] by (cases "FindStringSubmatch h") auto

lemma ParseInt_digits:
  assumes "s \<noteq> []" and "list_all is_digit s"
  shows "ParseInt s = (if dec_value s < 2 ^ 63 then Some (word_of_nat (dec_value s)) else None)"
proof -
  from assms have "is_digit (hd s)" by (cases s) simp_all
  then have "hd s \<noteq> CHR ''+''" "hd s \<noteq> CHR ''-''" using not_digit_sign by blast+
  then show ?thesis using assms by (simp add: ParseInt_def Let_def)
qed

lemma sint_word_of_nat:
  "n < 2 ^ 63 \<Longrightarrow> sint (word_of_nat n :: 64 word) = int n"
  by (simp add: signed_of_nat signed_take_bit_int_eq_self)


lemmas eval_defs = ParseRangeHeader_def FindStringSubmatch_def ParseInt_def is_word_char_def
  is_digit_def dec_value_def digit_val_def Range_Validate_def Let_def DefaultPageSize_def

text \<open>
  Claim C2, as amended. \<open>ParseRangeHeader\<close> returns an absent range and no error on the
  empty string, and \<open>ErrInvalidRange\<close> with no range on every other input that does not
  match the grammar. On an input that matches it, a start numeral above the largest
  \<open>int64\<close> gives \<open>ErrInvalidOffset\<close> and an end numeral above it \<open>ErrInvalidRange\<close>, both
  with no range; otherwise the range with that unit, start and end is returned, the end
  being \<open>start + DefaultPageSize - 1\<close> in wrapping 64-bit arithmetic when its digits are
  absent, together with \<open>ErrInvalidRange\<close> when \<open>end < start\<close> and with no error when not.
\<close>

theorem ParseRangeHeader_algorithm:
  "ParseRangeHeader [] = (None, None) \<and>
   (range_grammar h u s e \<longrightarrow>
      ParseRangeHeader h =
        (if 2 ^ 63 \<le> dec_value s then (None, Some ErrInvalidOffset)
         else if e \<noteq> [] \<and> 2 ^ 63 \<le> dec_value e then (None, Some ErrInvalidRange)
         else
           let start = word_of_nat (dec_value s);
               en = (if e \<noteq> [] then word_of_nat (dec_value e) else start + DefaultPageSize - 1)
           in (Some \<lparr>Start = start, End = en, Unit = u\<rparr>,
               if sint en < sint start then Some ErrInvalidRange else None))) \<and>
   (h \<noteq> [] \<and> (\<forall>u s e. \<not> range_grammar h u s e) \<longrightarrow>
      ParseRangeHeader h = (None, Some ErrInvalidRange))"
proof (intro conjI impI)
  show "ParseRangeHeader [] = (None, None)"
    by (simp add: ParseRangeHeader_def)
next
  assume g: "range_grammar h u s e"
  then have h: "h \<noteq> []" and s: "s \<noteq> []" "list_all is_digit s" and e: "list_all is_digit e"
    by (auto simp add: range_grammar_def)
  note fss = FindStringSubmatch_grammar [OF g]
  note ps = ParseInt_digits [OF s]
  show "ParseRangeHeader h =
        (if 2 ^ 63 \<le> dec_value s then (None, Some ErrInvalidOffset)
         else if e \<noteq> [] \<and> 2 ^ 63 \<le> dec_value e then (None, Some ErrInvalidRange)
         else
           let start = word_of_nat (dec_value s);
               en = (if e \<noteq> [] then word_of_nat (dec_value e) else start + DefaultPageSize - 1)
           in (Some \<lparr>Start = start, End = en, Unit = u\<rparr>,
               if sint en < sint start then Some ErrInvalidRange else None))"
  proof (cases "2 ^ 63 \<le> dec_value s")
    case True
    then show ?thesis using h by (simp add: ParseRangeHeader_def fss ps)
  next
    case small: False
    then have nonneg: "\<not> sint (word_of_nat (dec_value s) :: 64 word) < 0"
      by (simp add: sint_word_of_nat)
    show ?thesis
    proof (cases "e = []")
      case True
      then show ?thesis
        using h small nonneg
        by (simp add: ParseRangeHeader_def fss ps Range_Validate_def Let_def)
    next
      case False
      note pe = ParseInt_digits [OF False e]
      show ?thesis
        using h small nonneg False
        by (simp add: ParseRangeHeader_def fss ps pe Range_Validate_def Let_def)
    qed
  qed
next
  assume "h \<noteq> [] \<and> (\<forall>u s e. \<not> range_grammar h u s e)"
  then show "ParseRangeHeader h = (None, Some ErrInvalidRange)"
    by (simp add: ParseRangeHeader_def FindStringSubmatch_None)
qed

lemma no_grammar_invalid: "\<forall>u s e. \<not> range_grammar ''invalid'' u s e"
proof (intro allI notI)
  fix u s e assume "range_grammar ''invalid'' u s e"
  from FindStringSubmatch_grammar [OF this] show False
    by (simp add: FindStringSubmatch_def is_word_char_def)
qed

theorem ParseRangeHeader_algorithm_witness:
  "range_grammar ''items=0-24'' ''items'' ''0'' ''24'' \<and>
   ParseRangeHeader ''items=0-24'' = (Some \<lparr>Start = 0, End = 24, Unit = ''items''\<rparr>, None) \<and>
   range_grammar ''items=50-'' ''items'' ''50'' [] \<and>
   ParseRangeHeader ''items=50-'' = (Some \<lparr>Start = 50, End = 69, Unit = ''items''\<rparr>, None) \<and>
   ''invalid'' \<noteq> [] \<and> (\<forall>u s e. \<not> range_grammar ''invalid'' u s e) \<and>
   ParseRangeHeader ''invalid'' = (None, Some ErrInvalidRange)"
proof -
  have a: "range_grammar ''items=0-24'' ''items'' ''0'' ''24''"
    and b: "range_grammar ''items=50-'' ''items'' ''50'' []"
    by (simp_all add: range_grammar_def is_word_char_def is_digit_def)
  show ?thesis
    using a b no_grammar_invalid
      ParseRangeHeader_algorithm [of "''items=0-24''" "''items''" "''0''" "''24''"]
      ParseRangeHeader_algorithm [of "''items=50-''" "''items''" "''50''" "[]"]
      ParseRangeHeader_algorithm [of "''invalid''"]
    by (simp add: dec_value_def digit_val_def Let_def DefaultPageSize_def)
qed

text \<open>
  The claim C2 as first stated fails on a header that matches the grammar with numerals
  too large for \<open>int64\<close>: no range is returned.
\<close>

theorem ParseRangeHeader_overflow_counterexample:
  "range_grammar ''items=9223372036854775808-9223372036854775809''
     ''items'' ''9223372036854775808'' ''9223372036854775809'' \<and>
   ParseRangeHeader ''items=9223372036854775808-9223372036854775809''
     = (None, Some ErrInvalidOffset)"
  by (simp add: range_grammar_def eval_defs)

text \<open>
  Claim C10, as amended. For every input that matches the grammar with an end numeral
  smaller than the start numeral, and a start numeral that fits \<open>int64\<close>,
  \<open>ParseRangeHeader\<close> returns the parsed range itself together with \<open>ErrInvalidRange\<close>.
\<close>

theorem backwards_range_returned_with_error:
  "range_grammar h u s e \<and> e \<noteq> [] \<and> dec_value e < dec_value s \<and> dec_value s < 2 ^ 63 \<longrightarrow>
   ParseRangeHeader h =
     (Some \<lparr>Start = word_of_nat (dec_value s), End = word_of_nat (dec_value e), Unit = u\<rparr>,
      Some ErrInvalidRange)"
proof
  assume a: "range_grammar h u s e \<and> e \<noteq> [] \<and> dec_value e < dec_value s \<and> dec_value s < 2 ^ 63"
  then have g: "range_grammar h u s e" by simp
  then have h: "h \<noteq> []" and s: "s \<noteq> []" "list_all is_digit s" and e: "list_all is_digit e"
    by (auto simp add: range_grammar_def)
  from a have lt: "dec_value e < 2 ^ 63" by linarith
  show "ParseRangeHeader h =
     (Some \<lparr>Start = word_of_nat (dec_value s), End = word_of_nat (dec_value e), Unit = u\<rparr>,
      Some ErrInvalidRange)"
    using a h e lt
    by (simp add: ParseRangeHeader_def FindStringSubmatch_grammar [OF g] ParseInt_digits [OF s]
        ParseInt_digits [of e] Range_Validate_def Let_def sint_word_of_nat)
qed

theorem backwards_range_returned_with_error_witness:
  "range_grammar ''items=10-5'' ''items'' ''10'' ''5'' \<and> ''5'' \<noteq> [] \<and>
   dec_value ''5'' < dec_value ''10'' \<and> dec_value ''10'' < 2 ^ 63 \<and>
   ParseRangeHeader ''items=10-5''
     = (Some \<lparr>Start = 10, End = 5, Unit = ''items''\<rparr>, Some ErrInvalidRange)"
proof -
  have a: "range_grammar ''items=10-5'' ''items'' ''10'' ''5''"
    by (simp add: range_grammar_def is_word_char_def is_digit_def)
  show ?thesis
    using a backwards_range_returned_with_error [of "''items=10-5''" "''items''" "''10''" "''5''"]
    by (simp add: dec_value_def digit_val_def)
qed

text \<open>
  The claim C10 as first stated fails where the start numeral does not fit \<open>int64\<close>:
  the result is no range, and the error is \<open>ErrInvalidOffset\<close>.
\<close>

theorem backwards_range_overflow_counterexample:
  "range_grammar ''items=9223372036854775808-5'' ''items'' ''9223372036854775808'' ''5'' \<and>
   dec_value ''5'' < dec_value ''9223372036854775808'' \<and>
   ParseRangeHeader ''items=9223372036854775808-5'' = (None, Some ErrInvalidOffset)"
  by (simp add: range_grammar_def eval_defs)

section \<open>Proofs: Content-Range\<close>

text \<open>
  Claim C7. The Content-Range value ends in \<open>/*\<close> when the total is unknown, that is
  negative. \<open>Range.ContentRangeHeader\<close> does so; \<open>RangeResponse.ContentRange\<close> has no such
  case and prints the negative total.
\<close>

theorem ContentRange_negative_total:
  "ContentRange (NewRangeResponse [''a'', ''b'', ''c''] (NewRange 0 10) (- 1)) = ''items 0-2/-1'' \<and>
   ContentRangeHeader (NewRange 0 2) (- 1) = ''items 0-2/*''"
  by (simp add: ContentRange_def NewRangeResponse_def NewRange_def ContentRangeHeader_def
      fmt_d_def nat_dec.simps digit_char_def)

section \<open>Proofs: the cursor codec\<close>

lemma char_of_eq_iff_nat: "char_of (n::nat) = c \<longleftrightarrow> n mod 256 = of_char c"
  by (simp add: char_of_eq_iff take_bit_eq_mod)

lemmas b64_eval = DecodeString_def decodeMap_def encodeURL_def padChar_def is_newline_def
  quantum_bytes_def quantum_val_def encode_char_def char_of_eq_iff_nat


lemma sextets_recombine:
  fixes val :: nat
  assumes "val < 16777216"
  shows "quantum_val [val div 262144 mod 64, val div 4096 mod 64, val div 64 mod 64, val mod 64]
           = val"
proof -
  have 1: "val mod 4096 = 64 * (val div 64 mod 64) + val mod 64"
    using mod_mult2_eq [of val 64 64] by simp
  have 2: "val mod 262144 = 4096 * (val div 4096 mod 64) + val mod 4096"
    using mod_mult2_eq [of val 4096 64] by simp
  have 3: "val mod 16777216 = 262144 * (val div 262144 mod 64) + val mod 262144"
    using mod_mult2_eq [of val 262144 64] by simp
  have 4: "val mod 16777216 = val" using assms by simp
  have "quantum_val [val div 262144 mod 64, val div 4096 mod 64, val div 64 mod 64, val mod 64]
          = 262144 * (val div 262144 mod 64) + 4096 * (val div 4096 mod 64)
            + 64 * (val div 64 mod 64) + val mod 64"
    unfolding quantum_val_def by simp
  with 1 2 3 4 show ?thesis by linarith
qed

lemma sextets_recombine3:
  fixes val :: nat
  assumes "val < 16777216" and "val mod 64 = 0"
  shows "quantum_val [val div 262144 mod 64, val div 4096 mod 64, val div 64 mod 64] = val"
proof -
  have "quantum_val [val div 262144 mod 64, val div 4096 mod 64, val div 64 mod 64]
          = quantum_val [val div 262144 mod 64, val div 4096 mod 64, val div 64 mod 64, val mod 64]"
    unfolding quantum_val_def assms(2) by simp
  then show ?thesis using sextets_recombine [OF assms(1)] by simp
qed

lemma sextets_recombine2:
  fixes val :: nat
  assumes "val < 16777216" and "val mod 64 = 0" and "val div 64 mod 64 = 0"
  shows "quantum_val [val div 262144 mod 64, val div 4096 mod 64] = val"
proof -
  have "quantum_val [val div 262144 mod 64, val div 4096 mod 64]
          = quantum_val [val div 262144 mod 64, val div 4096 mod 64, val div 64 mod 64, val mod 64]"
    unfolding quantum_val_def assms(2,3) by simp
  then show ?thesis using sextets_recombine [OF assms(1)] by simp
qed

lemma index_of_nth:
  "distinct xs \<Longrightarrow> n < length xs \<Longrightarrow> index_of (xs ! n) xs = Some n"
proof (induction xs arbitrary: n)
  case Nil then show ?case by simp
next
  case (Cons x xs)
  then show ?case by (cases n) auto
qed

lemma index_of_None: "c \<notin> set xs \<Longrightarrow> index_of c xs = None"
  by (induction xs) auto

lemma distinct_encodeURL: "distinct encodeURL" and length_encodeURL: "length encodeURL = 64"
  by (simp_all add: encodeURL_def)

lemma decodeMap_encode_char: "decodeMap (encode_char n) = Some (n mod 64)"
  by (simp add: decodeMap_def encode_char_def index_of_nth distinct_encodeURL length_encodeURL)

lemma decodeMap_padChar: "decodeMap padChar = None"
  by (simp add: decodeMap_def padChar_def encodeURL_def)

lemma padChar_not_newline: "\<not> is_newline padChar"
  by (simp add: is_newline_def padChar_def)

lemma encode_char_not_pad: "encode_char n \<noteq> padChar"
  using decodeMap_encode_char [of n] decodeMap_padChar by auto

lemma decode_quantum4:
  "decode_from [] (encode_char a # encode_char b # encode_char c # encode_char d # src) =
     map_option ((@) (quantum_bytes [a mod 64, b mod 64, c mod 64, d mod 64])) (decode_from [] src)"
  by (simp add: decodeMap_encode_char)

lemma decode_quantum3:
  "decode_from [] [encode_char a, encode_char b, encode_char c, padChar] =
     Some (quantum_bytes [a mod 64, b mod 64, c mod 64])"
  by (simp add: decodeMap_encode_char decodeMap_padChar padChar_not_newline)

lemma decode_quantum2:
  "decode_from [] [encode_char a, encode_char b, padChar, padChar] =
     Some (quantum_bytes [a mod 64, b mod 64])"
  by (simp add: decodeMap_encode_char decodeMap_padChar padChar_not_newline)

lemma quantum_bytes_4:
  fixes x y z :: nat
  assumes "x < 256" "y < 256" "z < 256" and val: "val = x * 65536 + y * 256 + z"
  shows "quantum_bytes [val div 262144 mod 64, val div 4096 mod 64, val div 64 mod 64, val mod 64]
           = [char_of x, char_of y, char_of z]"
proof -
  have lt: "val < 16777216" using assms by simp
  have a: "val div 65536 = x" using assms by simp
  have v: "val = (x * 256 + y) * 256 + z" using val by simp
  have "val div 256 = x * 256 + y" using assms by simp
  then have b: "val div 256 mod 256 = y" using assms by simp
  have c: "val mod 256 = z"
    unfolding v using assms(3) by (simp only: mod_mult_self3 mod_less)
  have b': "char_of (val div 256) = char_of y"
    using b by (metis char_of_mod_256)
  have c': "char_of val = char_of z"
    using c by (metis char_of_mod_256)
  show ?thesis
    unfolding quantum_bytes_def Let_def sextets_recombine [OF lt] a b' c' by simp
qed

lemma quantum_bytes_3:
  fixes x y :: nat
  assumes "x < 256" "y < 256" and val: "val = x * 65536 + y * 256"
  shows "quantum_bytes [val div 262144 mod 64, val div 4096 mod 64, val div 64 mod 64]
           = [char_of x, char_of y]"
proof -
  have lt: "val < 16777216" using assms by simp
  have "val = 64 * (x * 1024 + y * 4)" using val by simp
  then have z: "val mod 64 = 0" by (metis mod_mult_self1_is_0)
  have a: "val div 65536 = x" using assms by simp
  have "val div 256 = x * 256 + y" using assms by simp
  then have b: "val div 256 mod 256 = y" using assms by simp
  have b': "char_of (val div 256) = char_of y"
    using b by (metis char_of_mod_256)
  show ?thesis
    unfolding quantum_bytes_def Let_def sextets_recombine3 [OF lt z] a b' by simp
qed

lemma quantum_bytes_2:
  fixes x :: nat
  assumes "x < 256" and val: "val = x * 65536"
  shows "quantum_bytes [val div 262144 mod 64, val div 4096 mod 64] = [char_of x]"
proof -
  have lt: "val < 16777216" using assms by simp
  have "val = 64 * (x * 1024)" using val by simp
  then have z: "val mod 64 = 0" by (metis mod_mult_self1_is_0)
  have "val div 64 = 64 * (x * 16)" using val by simp
  then have z2: "val div 64 mod 64 = 0" by (metis mod_mult_self1_is_0)
  have a: "val div 65536 = x" using assms by simp
  show ?thesis
    unfolding quantum_bytes_def Let_def sextets_recombine2 [OF lt z z2] a by simp
qed

lemma encode_char_mod: "encode_char (n mod 64) = encode_char n"
  by (simp add: encode_char_def)

lemma decode_from_EncodeToString: "decode_from [] (EncodeToString bs) = Some bs"
proof (induction bs rule: EncodeToString.induct)
  case (1 a b c src)
  let ?val = "of_char a * 65536 + of_char b * 256 + of_char c :: nat"
  have "quantum_bytes [?val div 262144 mod 64, ?val div 4096 mod 64, ?val div 64 mod 64, ?val mod 64]
          = [a, b, c]"
    using quantum_bytes_4 [of "of_char a" "of_char b" "of_char c" ?val] by simp
  then show ?case
    using 1 by (simp add: Let_def decode_quantum4 del: decode_from.simps)
next
  case (2 a b)
  let ?val = "of_char a * 65536 + of_char b * 256 :: nat"
  have "quantum_bytes [?val div 262144 mod 64, ?val div 4096 mod 64, ?val div 64 mod 64] = [a, b]"
    using quantum_bytes_3 [of "of_char a" "of_char b" ?val] by simp
  then show ?case
    by (simp add: Let_def decode_quantum3 del: decode_from.simps)
next
  case (3 a)
  let ?val = "of_char a * 65536 :: nat"
  have "quantum_bytes [?val div 262144 mod 64, ?val div 4096 mod 64] = [a]"
    using quantum_bytes_2 [of "of_char a" ?val] by simp
  then show ?case
    by (simp add: Let_def decode_quantum2 del: decode_from.simps)
next
  case 4
  then show ?case by simp
qed

lemmas json_eval = json_Marshal_def json_Unmarshal_def json_members.simps json_field_def
  json_int_def zero_data_def int_codec_def no_time_def key_text_def json_string_def
  escape_ascii_def dquote_def backslash_def hex_digit_def is_space_def skip_ws_def
  hex_val_def hex4_def utf8_encode_def unescape_def add_text_def rune_size_def is_cont_def
  fmt_d_def nat_dec.simps digit_char_def ParseInt_def is_digit_def dec_value_def digit_val_def
  Let_def

lemma strip_padding_Cons: "c \<noteq> padChar \<Longrightarrow> strip_padding (c # s) = c # strip_padding s"
  by (simp add: strip_padding_def dropWhile_append)

lemma strip_padding_pads [simp]:
  "strip_padding [] = []" "strip_padding [padChar] = []" "strip_padding [padChar, padChar] = []"
  by (simp_all add: strip_padding_def)

lemma decode_from_stripped:
  "decode_from [] (strip_padding (EncodeToString bs)) = (if length bs mod 3 = 0 then Some bs else None)"
proof (induction bs rule: EncodeToString.induct)
  case (1 a b c src)
  let ?val = "of_char a * 65536 + of_char b * 256 + of_char c :: nat"
  have q: "quantum_bytes [?val div 262144 mod 64, ?val div 4096 mod 64, ?val div 64 mod 64, ?val mod 64]
          = [a, b, c]"
    using quantum_bytes_4 [of "of_char a" "of_char b" "of_char c" ?val] by simp
  have "length (a # b # c # src) mod 3 = length src mod 3" by simp
  then show ?case
    using 1 q
    by (simp add: Let_def strip_padding_Cons encode_char_not_pad decode_quantum4
        del: decode_from.simps)
next
  case (2 a b)
  show ?case
    by (simp add: Let_def strip_padding_Cons encode_char_not_pad decodeMap_encode_char)
next
  case (3 a)
  show ?case
    by (simp add: Let_def strip_padding_Cons encode_char_not_pad decodeMap_encode_char)
next
  case 4
  show ?case by simp
qed

lemma EncodeToString_eq_Nil [simp]: "EncodeToString b = [] \<longleftrightarrow> b = []"
  by (induction b rule: EncodeToString.induct) (simp_all add: Let_def)

lemma strip_padding_eq_Nil: "b \<noteq> [] \<Longrightarrow> strip_padding (EncodeToString b) \<noteq> []"
  by (induction b rule: EncodeToString.induct)
    (simp_all add: Let_def strip_padding_Cons encode_char_not_pad)

lemma DecodeCursor_token:
  assumes "b \<noteq> []"
  shows "DecodeCursor Unmarshal (EncodeToString b) =
           (case Unmarshal b of Inl err \<Rightarrow> (None, Some ErrInvalidCursor) | Inr d \<Rightarrow> (Some d, None))"
  using assms by (simp add: DecodeCursor_def DecodeString_def decode_from_EncodeToString)

lemma DecodeCursor_stripped_token:
  assumes "b \<noteq> []"
  shows "DecodeCursor Unmarshal (strip_padding (EncodeToString b)) =
           (if length b mod 3 = 0
            then (case Unmarshal b of Inl err \<Rightarrow> (None, Some ErrInvalidCursor) | Inr d \<Rightarrow> (Some d, None))
            else (None, Some ErrInvalidCursor))"
  using assms
  by (simp add: DecodeCursor_def DecodeString_def decode_from_stripped strip_padding_eq_Nil)

subsection \<open>The JSON codec reads back what it writes\<close>

lemma hex_val_hex_digit: "n < 16 \<Longrightarrow> hex_val (hex_digit n) = Some n"
proof -
  have "\<forall>k \<in> set [0..<16]. hex_val (hex_digit k) = Some k"
    by (simp add: upt_rec hex_val_def hex_digit_def)
  moreover assume "n < 16"
  ultimately show ?thesis by simp
qed

lemma hex4_escape:
  "n < 128 \<Longrightarrow>
   hex4 [CHR ''0'', CHR ''0'', hex_digit (n div 16), hex_digit (n mod 16)] = Some n"
  by (simp add: hex4_def hex_val_hex_digit) (simp add: hex_val_def)

lemma char_of_of_char_nat: "of_char b = (n :: nat) \<Longrightarrow> b = char_of n"
  by (metis char_of_char)

lemma unquote_escape_ascii:
  assumes "(of_char b :: nat) < 128"
  shows "unquote_from (escape_ascii b @ s) = add_text [b] (unquote_from s)"
proof -
  let ?n = "of_char b :: nat"
  consider (q) "b = backslash \<or> b = dquote"
    | (c8) "?n = 8" | (c12) "?n = 12" | (c10) "?n = 10" | (c13) "?n = 13" | (c9) "?n = 9"
    | (u) "b \<noteq> backslash" "b \<noteq> dquote" "?n \<notin> {8, 12, 10, 13, 9}"
          "?n < 32 \<or> b = CHR ''<'' \<or> b = CHR ''>'' \<or> b = CHR ''&''"
    | (p) "b \<noteq> backslash" "b \<noteq> dquote" "32 \<le> ?n" "b \<noteq> CHR ''<''" "b \<noteq> CHR ''>''" "b \<noteq> CHR ''&''"
    by fastforce
  then show ?thesis
  proof cases
    case q
    then show ?thesis
      by (auto simp add: escape_ascii_def unescape_def dquote_def backslash_def)
  next
    case c8
    then have "b = CHR 0x08" using char_of_of_char_nat [of b 8] by (simp add: char_of_eq_iff_nat)
    then show ?thesis
      by (simp add: escape_ascii_def unescape_def dquote_def backslash_def)
  next
    case c12
    then have "b = CHR 0x0C" using char_of_of_char_nat [of b 12] by (simp add: char_of_eq_iff_nat)
    then show ?thesis
      by (simp add: escape_ascii_def unescape_def dquote_def backslash_def)
  next
    case c10
    then have "b = CHR 0x0A" using char_of_of_char_nat [of b 10] by (simp add: char_of_eq_iff_nat)
    then show ?thesis
      by (simp add: escape_ascii_def unescape_def dquote_def backslash_def)
  next
    case c13
    then have "b = CHR 0x0D" using char_of_of_char_nat [of b 13] by (simp add: char_of_eq_iff_nat)
    then show ?thesis
      by (simp add: escape_ascii_def unescape_def dquote_def backslash_def)
  next
    case c9
    then have "b = CHR 0x09" using char_of_of_char_nat [of b 9] by (simp add: char_of_eq_iff_nat)
    then show ?thesis
      by (simp add: escape_ascii_def unescape_def dquote_def backslash_def)
  next
    case u
    have e: "escape_ascii b =
        [backslash, CHR ''u'', CHR ''0'', CHR ''0'', hex_digit (?n div 16), hex_digit (?n mod 16)]"
      using u by (auto simp add: escape_ascii_def Let_def)
    have enc: "utf8_encode ?n = [b]"
      using assms by (simp add: utf8_encode_def)
    show ?thesis
      using assms
      by (simp add: e hex4_escape enc) (simp add: backslash_def dquote_def)
  next
    case p
    have e: "escape_ascii b = [b]"
      using p assms by (auto simp add: escape_ascii_def Let_def)
    show ?thesis
      using p assms by (simp add: e)
  qed
qed


lemma rune_size_prefix:
  assumes "rune_size s = n" and "n \<noteq> 0"
  shows "n \<le> length s \<and> rune_size (take n s @ t) = n"
  using assms
  by (auto simp add: rune_size_def Let_def split: list.splits if_splits)

lemma rune_size_lead: "rune_size (b # r) \<noteq> 0 \<Longrightarrow> 194 \<le> (of_char b :: nat)"
  by (auto simp add: rune_size_def Let_def split: list.splits if_splits)

lemma add_text_Some [simp]: "add_text t (Some (s, rest)) = Some (t @ s, rest)"
  by (simp add: add_text_def)

lemma unquote_rune:
  assumes "rune_size (b # r) = n" and "n \<noteq> 0"
  shows "unquote_from (take n (b # r) @ t) = add_text (take n (b # r)) (unquote_from t)"
proof -
  from rune_size_lead assms have hi: "194 \<le> (of_char b :: nat)" by blast
  then have ne: "b \<noteq> dquote" "b \<noteq> backslash"
    by (auto simp add: dquote_def backslash_def)
  from rune_size_prefix [OF assms, of t]
  have len: "n \<le> Suc (length r)" and same: "rune_size (take n (b # r) @ t) = n"
    by simp_all
  obtain m where m: "n = Suc m" using assms(2) by (cases n) auto
  have tk: "take n (b # r) @ t = b # (take m r @ t)" by (simp add: m)
  have same': "rune_size (b # (take m r @ t)) = Suc m" using same by (simp add: m)
  have "m \<le> length r" using len m by simp
  then have dr: "drop m (take m r @ t) = t" by simp
  show ?thesis
    unfolding tk
    using hi ne same' dr \<open>m \<le> length r\<close> by (simp add: Let_def m)
qed

lemma unquote_2028:
  "unquote_from ([backslash, CHR ''u'', CHR ''2'', CHR ''0'', CHR ''2'', CHR ''8''] @ t)
     = add_text [CHR 0xE2, CHR 0x80, CHR 0xA8] (unquote_from t)"
  "unquote_from ([backslash, CHR ''u'', CHR ''2'', CHR ''0'', CHR ''2'', CHR ''9''] @ t)
     = add_text [CHR 0xE2, CHR 0x80, CHR 0xA9] (unquote_from t)"
proof -
  have c: "char_of (226 :: nat) = CHR 0xE2" "char_of (128 :: nat) = CHR 0x80"
    "char_of (168 :: nat) = CHR 0xA8" "char_of (169 :: nat) = CHR 0xA9"
    by (simp_all add: char_of_eq_iff_nat)
  show "unquote_from ([backslash, CHR ''u'', CHR ''2'', CHR ''0'', CHR ''2'', CHR ''8''] @ t)
     = add_text [CHR 0xE2, CHR 0x80, CHR 0xA8] (unquote_from t)"
    by (simp add: backslash_def dquote_def hex4_def hex_val_def utf8_encode_def c)
  show "unquote_from ([backslash, CHR ''u'', CHR ''2'', CHR ''0'', CHR ''2'', CHR ''9''] @ t)
     = add_text [CHR 0xE2, CHR 0x80, CHR 0xA9] (unquote_from t)"
    by (simp add: backslash_def dquote_def hex4_def hex_val_def utf8_encode_def c)
qed

lemma rune_size_2028:
  "take 3 (b # r) = [CHR 0xE2, CHR 0x80, c] \<Longrightarrow> is_cont c \<Longrightarrow> rune_size (b # r) = 3"
  by (cases r; cases "tl r") (auto simp add: rune_size_def is_cont_def)

lemma unquote_fffd:
  "unquote_from ([backslash, CHR ''u'', CHR ''f'', CHR ''f'', CHR ''f'', CHR ''d''] @ t)
     = add_text (utf8_encode 65533) (unquote_from t)"
  by (simp add: backslash_def dquote_def hex4_def hex_val_def)

lemma coerce_2028:
  assumes "take 3 (b # r) = [CHR 0xE2, CHR 0x80, c]" and "is_cont c"
  shows "coerce_utf8 (b # r) = [CHR 0xE2, CHR 0x80, c] @ coerce_utf8 (drop 2 r)"
proof -
  have n: "rune_size (b # r) = 3" using assms by (rule rune_size_2028)
  then have n0: "rune_size (b # r) \<noteq> 0" by simp
  have b: "\<not> (of_char b :: nat) < 128" using assms(1) by auto
  have "coerce_utf8 (b # r)
          = take (rune_size (b # r)) (b # r) @ coerce_utf8 (drop (rune_size (b # r) - 1) r)"
    by (subst coerce_utf8.simps(2)) (simp only: b n0 if_False Let_def)
  then show ?thesis
    unfolding n assms(1) by simp
qed

lemma unquote_quote:
  "unquote_from (quote_from s @ dquote # rest) = Some (coerce_utf8 s, rest)"
proof (induction s rule: quote_from.induct)
  case 1
  then show ?case by simp
next
  case (2 b r)
  show ?case
  proof (cases "(of_char b :: nat) < 128")
    case True
    then show ?thesis
      using "2.IH"(1) by (simp add: unquote_escape_ascii)
  next
    case False
    let ?n = "rune_size (b # r)"
    show ?thesis
    proof (cases "?n = 0")
      case n0: True
      from "2.IH"(2) [OF False refl n0]
      have ih: "unquote_from (quote_from r @ dquote # rest) = Some (coerce_utf8 r, rest)" .
      have q: "quote_from (b # r) =
                 [backslash, CHR ''u'', CHR ''f'', CHR ''f'', CHR ''f'', CHR ''d''] @ quote_from r"
        using False n0 by (simp add: Let_def)
      have c: "coerce_utf8 (b # r) = utf8_encode 65533 @ coerce_utf8 r"
        using False n0 by (simp add: Let_def)
      show ?thesis
        using ih by (simp only: q c append_assoc unquote_fffd add_text_Some)
    next
      case n: False
    show ?thesis
    proof (cases "take 3 (b # r) = [CHR 0xE2, CHR 0x80, CHR 0xA8]")
      case a: True
      then have n3: "?n = 3" by (rule rune_size_2028) (simp add: is_cont_def)
      from "2.IH"(3) [OF False refl n a]
      have ih: "unquote_from (quote_from (drop 2 r) @ dquote # rest)
                  = Some (coerce_utf8 (drop 2 r), rest)" .
      have r: "coerce_utf8 (b # r) = [CHR 0xE2, CHR 0x80, CHR 0xA8] @ coerce_utf8 (drop 2 r)"
        using a by (rule coerce_2028) (simp add: is_cont_def)
      have "quote_from (b # r) =
              [backslash, CHR ''u'', CHR ''2'', CHR ''0'', CHR ''2'', CHR ''8''] @ quote_from (drop 2 r)"
        using False n a by (simp add: Let_def)
      then show ?thesis
        using ih r by (simp only: append_assoc unquote_2028 add_text_Some)
    next
      case na: False
      show ?thesis
      proof (cases "take 3 (b # r) = [CHR 0xE2, CHR 0x80, CHR 0xA9]")
        case a: True
        then have n3: "?n = 3" by (rule rune_size_2028) (simp add: is_cont_def)
        from "2.IH"(4) [OF False refl n na a]
        have ih: "unquote_from (quote_from (drop 2 r) @ dquote # rest)
                    = Some (coerce_utf8 (drop 2 r), rest)" .
        have r: "coerce_utf8 (b # r) = [CHR 0xE2, CHR 0x80, CHR 0xA9] @ coerce_utf8 (drop 2 r)"
          using a by (rule coerce_2028) (simp add: is_cont_def)
        have "quote_from (b # r) =
                [backslash, CHR ''u'', CHR ''2'', CHR ''0'', CHR ''2'', CHR ''9''] @ quote_from (drop 2 r)"
          using False n na a by (simp add: Let_def)
        then show ?thesis
          using ih r by (simp only: append_assoc unquote_2028 add_text_Some)
      next
        case nb: False
        from "2.IH"(5) [OF False refl n na nb]
        have ih: "unquote_from (quote_from (drop (?n - 1) r) @ dquote # rest)
                    = Some (coerce_utf8 (drop (?n - 1) r), rest)" .
        have c: "coerce_utf8 (b # r) = take ?n (b # r) @ coerce_utf8 (drop (?n - 1) r)"
          by (subst coerce_utf8.simps(2)) (simp only: False n if_False Let_def)
        have q: "quote_from (b # r) = take ?n (b # r) @ quote_from (drop (?n - 1) r)"
          by (subst quote_from.simps(2)) (simp only: False n na nb if_False Let_def)
        show ?thesis
          using ih by (simp only: q c append_assoc unquote_rune [OF refl n] add_text_Some)
      qed
    qed
    qed
  qed
qed

lemma coerce_utf8_valid: "valid_utf8 s \<Longrightarrow> coerce_utf8 s = s"
proof (induction s rule: coerce_utf8.induct)
  case 1
  then show ?case by simp
next
  case (2 b r)
  show ?case
  proof (cases "(of_char b :: nat) < 128")
    case True
    then show ?thesis using 2 by simp
  next
    case False
    let ?n = "rune_size (b # r)"
    from False "2.prems" have n: "?n \<noteq> 0" and v: "valid_utf8 (drop (?n - 1) r)"
      by simp_all
    from "2.IH"(3) [OF False refl n v]
    have ih: "coerce_utf8 (drop (?n - 1) r) = drop (?n - 1) r" .
    have c: "coerce_utf8 (b # r) = take ?n (b # r) @ coerce_utf8 (drop (?n - 1) r)"
      by (subst coerce_utf8.simps(2)) (simp only: False n if_False Let_def)
    have "take ?n (b # r) @ drop (?n - 1) r = b # r"
      using n by (cases ?n) simp_all
    then show ?thesis by (simp only: c ih)
  qed
qed




lemma digit_char_props:
  "d < 10 \<Longrightarrow> is_digit (digit_char d) \<and> digit_val (digit_char d) = d \<and>
     (d \<noteq> 0 \<longrightarrow> digit_char d \<noteq> CHR ''0'')"
proof -
  have "\<forall>k \<in> set [0..<10]. is_digit (digit_char k) \<and> digit_val (digit_char k) = k \<and>
     (k \<noteq> 0 \<longrightarrow> digit_char k \<noteq> CHR ''0'')"
    by (simp add: upt_rec digit_char_def is_digit_def digit_val_def)
  moreover assume "d < 10"
  ultimately show ?thesis by simp
qed

lemma dec_value_snoc: "dec_value (xs @ [c]) = 10 * dec_value xs + digit_val c"
  by (simp add: dec_value_def)

lemma nat_dec_props:
  "nat_dec n \<noteq> [] \<and> list_all is_digit (nat_dec n) \<and> dec_value (nat_dec n) = n \<and>
   (n \<noteq> 0 \<longrightarrow> hd (nat_dec n) \<noteq> CHR ''0'') \<and> (n = 0 \<longrightarrow> length (nat_dec n) = 1)"
proof (induction n rule: nat_dec.induct)
  case (1 n)
  show ?case
  proof (cases "n < 10")
    case True
    then have "nat_dec n = [digit_char n]" by (simp add: nat_dec.simps)
    then show ?thesis
      using digit_char_props [OF True] by (auto simp add: dec_value_def)
  next
    case False
    then have eq: "nat_dec n = nat_dec (n div 10) @ [digit_char (n mod 10)]"
      by (simp add: nat_dec.simps)
    have m: "n mod 10 < 10" by simp
    have d: "n div 10 \<noteq> 0" using False by simp
    from 1 [OF False] d digit_char_props [OF m] False show ?thesis
      by (simp add: eq dec_value_snoc)
  qed
qed

lemma takeWhile_digits:
  assumes "list_all is_digit ds" and "rest = [] \<or> \<not> is_digit (hd rest)"
  shows "takeWhile is_digit (ds @ rest) = ds \<and> dropWhile is_digit (ds @ rest) = rest"
  using assms by (cases rest) (auto simp add: list_all_iff takeWhile_append dropWhile_append)

lemma ParseInt_minus_digits:
  assumes "ds \<noteq> []" and "list_all is_digit ds"
  shows "ParseInt (CHR ''-'' # ds) =
           (if dec_value ds \<le> 2 ^ 63 then Some (- word_of_nat (dec_value ds)) else None)"
  using assms by (simp add: ParseInt_def Let_def not_less)

lemma word_of_sint_nonneg: "0 \<le> sint (v :: 64 word) \<Longrightarrow> word_of_nat (nat (sint v)) = v"
proof -
  assume "0 \<le> sint v"
  then have "int (nat (sint v)) = sint v" by simp
  then have "(word_of_nat (nat (sint v)) :: 64 word) = word_of_int (sint v)"
    by (metis of_int_of_nat_eq)
  then show ?thesis by simp
qed

lemma word_of_sint_neg: "sint (v :: 64 word) < 0 \<Longrightarrow> - word_of_nat (nat (- sint v)) = v"
proof -
  assume "sint v < 0"
  then have "int (nat (- sint v)) = - sint v" by simp
  then have "(word_of_nat (nat (- sint v)) :: 64 word) = word_of_int (- sint v)"
    by (metis of_int_of_nat_eq)
  then show ?thesis by simp
qed

lemma json_int_fmt_d:
  fixes v :: "64 word"
  assumes "rest = [] \<or> \<not> is_digit (hd rest)"
  shows "json_int (fmt_d (sint v) @ rest) = Some (v, rest)"
proof (cases "sint v < 0")
  case False
  let ?n = "nat (sint v)"
  let ?ds = "nat_dec ?n"
  note p = nat_dec_props [of ?n]
  have lt: "?n < 2 ^ 63"
    using sint_lt [of v] False by simp
  have f: "fmt_d (sint v) = ?ds" using False by (simp add: fmt_d_def)
  from p have "is_digit (hd ?ds)" by (cases ?ds) simp_all
  then have nm: "hd ?ds \<noteq> CHR ''-''" by (auto simp add: is_digit_def)
  have sign: "takeWhile (\<lambda>c. c = CHR ''-'') (take 1 (?ds @ rest)) = []"
    using p nm by (cases ?ds) simp_all
  have lead: "\<not> (length ?ds > 1 \<and> hd ?ds = CHR ''0'')"
    using p by (cases "?n = 0") simp_all
  have pi: "ParseInt ?ds = Some v"
    using p lt False by (simp add: ParseInt_digits word_of_sint_nonneg)
  show ?thesis
    unfolding json_int_def f Let_def sign
    using p lead pi takeWhile_digits [OF _ assms, of ?ds]
    by simp
next
  case True
  let ?n = "nat (- sint v)"
  let ?ds = "nat_dec ?n"
  note p = nat_dec_props [of ?n]
  have le: "?n \<le> 2 ^ 63"
    using sint_ge [of v] True by simp
  have n0: "?n \<noteq> 0" using True by simp
  have f: "fmt_d (sint v) = CHR ''-'' # ?ds" using True by (simp add: fmt_d_def)
  have lead: "\<not> (length ?ds > 1 \<and> hd ?ds = CHR ''0'')"
    using p n0 by simp
  have pi: "ParseInt (CHR ''-'' # ?ds) = Some v"
    using p le True by (simp add: ParseInt_minus_digits word_of_sint_neg)
  show ?thesis
    using p lead pi takeWhile_digits [OF _ assms, of ?ds]
    by (simp add: json_int_def f Let_def)
qed

lemma skip_ws_nonspace: "s \<noteq> [] \<Longrightarrow> \<not> is_space (hd s) \<Longrightarrow> skip_ws s = s"
  by (cases s) (simp_all add: skip_ws_def)

lemma sep_props: "is_sep c \<Longrightarrow> \<not> is_space c \<and> \<not> is_digit c \<and> c \<noteq> CHR '':''"
  by (auto simp add: is_sep_def is_space_def is_digit_def)

lemma unquote_key:
  assumes "k \<in> {''id'', ''v'', ''ts'', ''o''}"
  shows "unquote_from (k @ dquote # rest) = Some (k, rest)"
proof -
  have "quote_from k = k \<and> coerce_utf8 k = k"
    using assms by (auto simp add: escape_ascii_def backslash_def dquote_def)
  then show ?thesis using unquote_quote [of k rest] by simp
qed

lemma member_step:
  assumes f: "json_field vc tc k data (val @ c3 # nxt) = Some (data', c3 # nxt)"
    and k: "k \<in> {''id'', ''v'', ''ts'', ''o''}"
    and val: "val \<noteq> []" "\<not> is_space (hd val)"
    and c3: "is_sep c3"
  shows "json_members (Suc fuel) vc tc data (key_text k @ val @ c3 # nxt) =
           (if c3 = CHR '','' then json_members fuel vc tc data' (skip_ws nxt)
            else if skip_ws nxt = [] then Some data' else None)"
proof -
  have a: "key_text k @ val @ c3 # nxt = dquote # (k @ dquote # CHR '':'' # val @ c3 # nxt)"
    by (simp add: key_text_def)
  have b: "skip_ws (CHR '':'' # val @ c3 # nxt) = CHR '':'' # val @ c3 # nxt"
    by (simp add: skip_ws_def is_space_def)
  have c: "skip_ws (val @ c3 # nxt) = val @ c3 # nxt"
    using val by (intro skip_ws_nonspace) (cases val; simp)+
  have d: "skip_ws (c3 # nxt) = c3 # nxt"
    using sep_props [OF c3] by (simp add: skip_ws_def)
  show ?thesis
    unfolding a
    using c3 by (auto simp add: unquote_key [OF k] b c f d is_sep_def)
qed

lemma field_id:
  "json_field vc tc ''id'' data (json_string s @ c3 # nxt)
     = Some (data\<lparr>ID := coerce_utf8 s\<rparr>, c3 # nxt)"
  using unquote_quote [of s "c3 # nxt"]
  by (simp add: json_field_def json_string_def)

lemma field_o:
  assumes "is_sep c3"
  shows "json_field vc tc ''o'' data (fmt_d (sint w) @ c3 # nxt)
           = Some (data\<lparr>COffset := w\<rparr>, c3 # nxt)"
  using json_int_fmt_d [of "c3 # nxt" w] sep_props [OF assms]
  by (simp add: json_field_def)

lemma field_v:
  assumes "field_ok vc v" "\<not> fc_empty vc v" "fc_enc vc v = Some j" "is_sep c3"
  shows "json_field vc tc ''v'' data (j @ c3 # nxt) = Some (data\<lparr>Value := v\<rparr>, c3 # nxt)"
  using assms by (auto simp add: field_ok_def json_field_def is_sep_def)

lemma field_ts:
  assumes "field_ok tc t" "\<not> fc_empty tc t" "fc_enc tc t = Some j" "is_sep c3"
  shows "json_field vc tc ''ts'' data (j @ c3 # nxt) = Some (data\<lparr>Timestamp := t\<rparr>, c3 # nxt)"
  using assms by (auto simp add: field_ok_def json_field_def is_sep_def)


lemma length_join_fields: "(\<forall>f \<in> set l. f \<noteq> []) \<Longrightarrow> length l \<le> length (join_fields l)"
  by (induction l rule: join_fields.induct) (auto simp add: Suc_le_eq)

lemma members_list:
  assumes step: "\<And>f u fuel data c3 nxt. (f, u) \<in> set fs \<Longrightarrow> is_sep c3 \<Longrightarrow>
            json_members (Suc fuel) vc tc data (f @ c3 # nxt) =
              (if c3 = CHR '','' then json_members fuel vc tc (u data) (skip_ws nxt)
               else if skip_ws nxt = [] then Some (u data) else None)"
    and start: "\<And>f u. (f, u) \<in> set fs \<Longrightarrow> f \<noteq> [] \<and> \<not> is_space (hd f)"
    and "fs \<noteq> []" and "length fs \<le> fuel"
  shows "json_members fuel vc tc data (join_fields (map fst fs) @ [CHR 0x7D])
           = Some (foldl (\<lambda>d fu. snd fu d) data fs)"
  using assms
proof (induction fs arbitrary: fuel data)
  case Nil
  then show ?case by simp
next
  case (Cons x fs)
  obtain f u where x: "x = (f, u)" by (cases x)
  obtain fuel' where fuel: "fuel = Suc fuel'" using Cons.prems(4) by (cases fuel) auto
  show ?case
  proof (cases fs)
    case Nil
    have "json_members (Suc fuel') vc tc data (f @ CHR 0x7D # []) = Some (u data)"
      using Cons.prems(1) [of f u "CHR 0x7D" fuel' data "[]"]
      by (simp add: x is_sep_def skip_ws_def)
    then show ?thesis by (simp add: Nil x fuel)
  next
    case (Cons y ys)
    obtain g w where y: "y = (g, w)" by (cases y)
    have g: "g \<noteq> [] \<and> \<not> is_space (hd g)"
      using Cons.prems(2) [of g w] by (simp add: Cons y)
    have j: "join_fields (map fst (x # fs)) @ [CHR 0x7D]
               = f @ CHR '','' # (join_fields (map fst fs) @ [CHR 0x7D])"
      by (simp add: x Cons y)
    have sk: "skip_ws (join_fields (map fst fs) @ [CHR 0x7D]) = join_fields (map fst fs) @ [CHR 0x7D]"
    proof (rule skip_ws_nonspace)
      show "join_fields (map fst fs) @ [CHR 0x7D] \<noteq> []" by simp
      have "hd (join_fields (map fst fs) @ [CHR 0x7D]) = hd g"
        using g by (cases ys) (simp_all add: Cons y)
      then show "\<not> is_space (hd (join_fields (map fst fs) @ [CHR 0x7D]))"
        using g by simp
    qed
    have ih: "json_members fuel' vc tc (u data) (join_fields (map fst fs) @ [CHR 0x7D])
                = Some (foldl (\<lambda>d fu. snd fu d) (u data) fs)"
    proof (rule Cons.IH)
      fix f u fuel data c3 nxt
      assume "(f, u) \<in> set fs" and "is_sep c3"
      then show "json_members (Suc fuel) vc tc data (f @ c3 # nxt) =
              (if c3 = CHR '','' then json_members fuel vc tc (u data) (skip_ws nxt)
               else if skip_ws nxt = [] then Some (u data) else None)"
        by (intro Cons.prems(1)) simp_all
    next
      fix f u
      assume "(f, u) \<in> set fs"
      then show "f \<noteq> [] \<and> \<not> is_space (hd f)"
        by (intro Cons.prems(2) [of f u]) simp
    next
      show "fs \<noteq> []" by (simp add: \<open>fs = y # ys\<close>)
    next
      show "length fs \<le> fuel'" using Cons.prems(4) fuel by simp
    qed
    have "json_members (Suc fuel') vc tc data (f @ CHR '','' # (join_fields (map fst fs) @ [CHR 0x7D]))
            = json_members fuel' vc tc (u data) (skip_ws (join_fields (map fst fs) @ [CHR 0x7D]))"
      using Cons.prems(1) [of f u "CHR '',''" fuel' data] by (simp add: x is_sep_def)
    then show ?thesis
      by (simp only: j fuel sk ih) (simp add: x)
  qed
qed

lemma fmt_d_start: "fmt_d i \<noteq> [] \<and> \<not> is_space (hd (fmt_d i))"
proof -
  have "nat_dec n \<noteq> [] \<and> is_digit (hd (nat_dec n))" for n
    using nat_dec_props [of n] by (cases "nat_dec n") simp_all
  moreover have "is_digit c \<Longrightarrow> \<not> is_space c" for c
    by (auto simp add: is_digit_def is_space_def)
  ultimately show ?thesis
    by (simp add: fmt_d_def is_space_def)
qed

lemma key_text_start: "key_text k @ s \<noteq> [] \<and> \<not> is_space (hd (key_text k @ s))"
  by (simp add: key_text_def dquote_def is_space_def)

lemma json_read_back:
  fixes p :: "('v, 't) CursorData"
  assumes v: "field_ok vc (Value p)" and t: "field_ok tc (Timestamp p)"
  shows "\<exists>b. b \<noteq> [] \<and> json_Marshal vc tc p = Inr b \<and>
             json_Unmarshal vc tc b = Inr (p\<lparr>ID := coerce_utf8 (ID p)\<rparr>)"
proof -
  let ?p = "p\<lparr>ID := coerce_utf8 (ID p)\<rparr>"
  define jv where "jv = (case fc_enc vc (Value p) of Some j \<Rightarrow> j | None \<Rightarrow> [])"
  define jt where "jt = (case fc_enc tc (Timestamp p) of Some j \<Rightarrow> j | None \<Rightarrow> [])"
  have ev: "\<not> fc_empty vc (Value p) \<Longrightarrow> fc_enc vc (Value p) = Some jv"
    using v by (auto simp add: field_ok_def jv_def split: option.splits)
  have et: "\<not> fc_empty tc (Timestamp p) \<Longrightarrow> fc_enc tc (Timestamp p) = Some jt"
    using t by (auto simp add: field_ok_def jt_def split: option.splits)
  have sv: "\<not> fc_empty vc (Value p) \<Longrightarrow> jv \<noteq> [] \<and> \<not> is_space (hd jv)"
    using v ev by (auto simp add: field_ok_def)
  have st: "\<not> fc_empty tc (Timestamp p) \<Longrightarrow> jt \<noteq> [] \<and> \<not> is_space (hd jt)"
    using t et by (auto simp add: field_ok_def)
  define idf :: "(string \<times> (('v, 't) CursorData \<Rightarrow> ('v, 't) CursorData)) list"
    where "idf = (if ID p = [] then []
                  else [(key_text ''id'' @ json_string (ID p), \<lambda>d. d\<lparr>ID := coerce_utf8 (ID p)\<rparr>)])"
  define vf :: "(string \<times> (('v, 't) CursorData \<Rightarrow> ('v, 't) CursorData)) list"
    where "vf = (if fc_empty vc (Value p) then []
                 else [(key_text ''v'' @ jv, \<lambda>d. d\<lparr>Value := Value p\<rparr>)])"
  define tf :: "(string \<times> (('v, 't) CursorData \<Rightarrow> ('v, 't) CursorData)) list"
    where "tf = (if fc_empty tc (Timestamp p) then []
                 else [(key_text ''ts'' @ jt, \<lambda>d. d\<lparr>Timestamp := Timestamp p\<rparr>)])"
  define ofl :: "(string \<times> (('v, 't) CursorData \<Rightarrow> ('v, 't) CursorData)) list"
    where "ofl = (if COffset p = 0 then []
                  else [(key_text ''o'' @ fmt_d (sint (COffset p)), \<lambda>d. d\<lparr>COffset := COffset p\<rparr>)])"
  define fs where "fs = idf @ vf @ tf @ ofl"
  define b where "b = CHR 0x7B # join_fields (map fst fs) @ [CHR 0x7D]"
  have m: "json_Marshal vc tc p = Inr b"
    using ev et
    by (simp add: json_Marshal_def Let_def b_def fs_def idf_def vf_def tf_def ofl_def)
  have mem: "(f, u) \<in> set fs \<Longrightarrow>
      (f = key_text ''id'' @ json_string (ID p) \<and> u = (\<lambda>d. d\<lparr>ID := coerce_utf8 (ID p)\<rparr>)) \<or>
      (\<not> fc_empty vc (Value p) \<and> f = key_text ''v'' @ jv \<and> u = (\<lambda>d. d\<lparr>Value := Value p\<rparr>)) \<or>
      (\<not> fc_empty tc (Timestamp p) \<and> f = key_text ''ts'' @ jt \<and> u = (\<lambda>d. d\<lparr>Timestamp := Timestamp p\<rparr>)) \<or>
      (f = key_text ''o'' @ fmt_d (sint (COffset p)) \<and> u = (\<lambda>d. d\<lparr>COffset := COffset p\<rparr>))"
    for f u
    by (auto simp add: fs_def idf_def vf_def tf_def ofl_def split: if_splits)
  have step: "json_members (Suc fuel) vc tc data (f @ c3 # nxt) =
              (if c3 = CHR '','' then json_members fuel vc tc (u data) (skip_ws nxt)
               else if skip_ws nxt = [] then Some (u data) else None)"
    if "(f, u) \<in> set fs" and sep: "is_sep c3" for f u fuel data c3 nxt
    using mem [OF that(1)]
  proof (elim disjE conjE)
    assume f: "f = key_text ''id'' @ json_string (ID p)"
      and u: "u = (\<lambda>d. d\<lparr>ID := coerce_utf8 (ID p)\<rparr>)"
    show ?thesis
      unfolding f u append_assoc
      by (rule member_step [OF field_id _ _ _ sep])
        (simp_all add: json_string_def dquote_def is_space_def)
  next
    assume ne: "\<not> fc_empty vc (Value p)" and f: "f = key_text ''v'' @ jv"
      and u: "u = (\<lambda>d. d\<lparr>Value := Value p\<rparr>)"
    show ?thesis
      unfolding f u append_assoc
      by (rule member_step [OF field_v [OF v ne ev [OF ne] sep] _ _ _ sep])
        (simp_all add: sv [OF ne])
  next
    assume ne: "\<not> fc_empty tc (Timestamp p)" and f: "f = key_text ''ts'' @ jt"
      and u: "u = (\<lambda>d. d\<lparr>Timestamp := Timestamp p\<rparr>)"
    show ?thesis
      unfolding f u append_assoc
      by (rule member_step [OF field_ts [OF t ne et [OF ne] sep] _ _ _ sep])
        (simp_all add: st [OF ne])
  next
    assume f: "f = key_text ''o'' @ fmt_d (sint (COffset p))"
      and u: "u = (\<lambda>d. d\<lparr>COffset := COffset p\<rparr>)"
    show ?thesis
      unfolding f u append_assoc
      by (rule member_step [OF field_o [OF sep] _ _ _ sep])
        (simp_all add: fmt_d_start)
  qed
  have start: "f \<noteq> [] \<and> \<not> is_space (hd f)" if "(f, u) \<in> set fs" for f u
    using mem [OF that] key_text_start by auto
  have z: "foldl (\<lambda>d fu. snd fu d) (zero_data vc tc) fs = ?p"
    using v t
    by (cases p)
      (auto simp add: fs_def idf_def vf_def tf_def ofl_def zero_data_def field_ok_def)
  have len: "length fs \<le> length b"
  proof -
    have "\<forall>f \<in> set (map fst fs). f \<noteq> []" using start by auto
    from length_join_fields [OF this] show ?thesis by (simp add: b_def)
  qed
  have u: "json_Unmarshal vc tc b = Inr ?p"
  proof (cases "fs = []")
    case True
    then show ?thesis
      using z by (simp add: json_Unmarshal_def b_def skip_ws_def is_space_def)
  next
    case False
    let ?r = "join_fields (map fst fs) @ [CHR 0x7D]"
    obtain f u fs' where fs: "fs = (f, u) # fs'" using False by (cases fs) auto
    have hd: "hd ?r = hd f" "f \<noteq> []" "\<not> is_space (hd f)"
      using start [of f u] by (cases fs'; simp add: fs)+
    have hq: "hd f = dquote"
      using mem [of f u] by (auto simp add: fs key_text_def)
    obtain r1 where r: "?r = dquote # r1"
      using hd hq by (cases ?r) auto
    have sk: "skip_ws ?r = ?r"
      using hd by (intro skip_ws_nonspace) simp_all
    have "json_members (length b) vc tc (zero_data vc tc) ?r
            = Some (foldl (\<lambda>d fu. snd fu d) (zero_data vc tc) fs)"
    proof (rule members_list)
      show "\<And>f u fuel data c3 nxt. (f, u) \<in> set fs \<Longrightarrow> is_sep c3 \<Longrightarrow>
              json_members (Suc fuel) vc tc data (f @ c3 # nxt) =
                (if c3 = CHR '','' then json_members fuel vc tc (u data) (skip_ws nxt)
                 else if skip_ws nxt = [] then Some (u data) else None)"
        by (rule step)
      show "\<And>f u. (f, u) \<in> set fs \<Longrightarrow> f \<noteq> [] \<and> \<not> is_space (hd f)"
        by (rule start)
      show "fs \<noteq> []" by (rule False)
      show "length fs \<le> length b" by (rule len)
    qed
    then have "json_members (length b) vc tc (zero_data vc tc) ?r = Some ?p"
      by (simp only: z)
    then show ?thesis
      using sk r
      by (simp add: json_Unmarshal_def b_def skip_ws_def is_space_def dquote_def
          del: json_members.simps)
  qed
  have "b \<noteq> []" by (simp add: b_def)
  then show ?thesis
    using m u by blast
qed

lemma json_round_trip:
  fixes p :: "('v, 't) CursorData"
  assumes "valid_utf8 (ID p)" and "field_ok vc (Value p)" and "field_ok tc (Timestamp p)"
  shows "representable (json_Marshal vc tc) (json_Unmarshal vc tc) p"
proof -
  from json_read_back [OF assms(2,3)] coerce_utf8_valid [OF assms(1)]
  obtain b where "b \<noteq> []" "json_Marshal vc tc p = Inr b" "json_Unmarshal vc tc b = Inr p"
    by auto
  then show ?thesis by (simp add: representable_def)
qed






lemma sample_json:
  "json_Marshal int_codec no_time \<lparr>ID = ''user_123'', Value = 42, Timestamp = (), COffset = 100\<rparr>
     = Inr [CHR ''{'', CHR 0x22, CHR ''i'', CHR ''d'', CHR 0x22, CHR '':'', CHR 0x22, CHR ''u'', CHR ''s'', CHR ''e'', CHR ''r'', CHR ''_'', CHR ''1'', CHR ''2'', CHR ''3'', CHR 0x22, CHR '','', CHR 0x22, CHR ''v'', CHR 0x22, CHR '':'', CHR ''4'', CHR ''2'', CHR '','', CHR 0x22, CHR ''o'', CHR 0x22, CHR '':'', CHR ''1'', CHR ''0'', CHR ''0'', CHR ''}'']"
  by (simp add: json_eval)

lemma sample_read:
  "json_Unmarshal int_codec no_time [CHR ''{'', CHR 0x22, CHR ''i'', CHR ''d'', CHR 0x22, CHR '':'', CHR 0x22, CHR ''u'', CHR ''s'', CHR ''e'', CHR ''r'', CHR ''_'', CHR ''1'', CHR ''2'', CHR ''3'', CHR 0x22, CHR '','', CHR 0x22, CHR ''v'', CHR 0x22, CHR '':'', CHR ''4'', CHR ''2'', CHR '','', CHR 0x22, CHR ''o'', CHR 0x22, CHR '':'', CHR ''1'', CHR ''0'', CHR ''0'', CHR ''}'']
     = Inr \<lparr>ID = ''user_123'', Value = 42, Timestamp = (), COffset = 100\<rparr>"
  by (simp add: json_eval)

lemma sample_representable:
  "representable (json_Marshal int_codec no_time) (json_Unmarshal int_codec no_time)
     \<lparr>ID = ''user_123'', Value = 42, Timestamp = (), COffset = 100\<rparr>"
  by (simp only: representable_def sample_json sample_read sum.case list.simps simp_thms)

lemma sample_base64:
  "EncodeToString [CHR ''{'', CHR 0x22, CHR ''i'', CHR ''d'', CHR 0x22, CHR '':'', CHR 0x22, CHR ''u'', CHR ''s'', CHR ''e'', CHR ''r'', CHR ''_'', CHR ''1'', CHR ''2'', CHR ''3'', CHR 0x22, CHR '','', CHR 0x22, CHR ''v'', CHR 0x22, CHR '':'', CHR ''4'', CHR ''2'', CHR '','', CHR 0x22, CHR ''o'', CHR 0x22, CHR '':'', CHR ''1'', CHR ''0'', CHR ''0'', CHR ''}''] = ''eyJpZCI6InVzZXJfMTIzIiwidiI6NDIsIm8iOjEwMH0=''"
  "DecodeString ''eyJpZCI6InVzZXJfMTIzIiwidiI6NDIsIm8iOjEwMH0='' = Some [CHR ''{'', CHR 0x22, CHR ''i'', CHR ''d'', CHR 0x22, CHR '':'', CHR 0x22, CHR ''u'', CHR ''s'', CHR ''e'', CHR ''r'', CHR ''_'', CHR ''1'', CHR ''2'', CHR ''3'', CHR 0x22, CHR '','', CHR 0x22, CHR ''v'', CHR 0x22, CHR '':'', CHR ''4'', CHR ''2'', CHR '','', CHR 0x22, CHR ''o'', CHR 0x22, CHR '':'', CHR ''1'', CHR ''0'', CHR ''0'', CHR ''}'']"
  "strip_padding ''eyJpZCI6InVzZXJfMTIzIiwidiI6NDIsIm8iOjEwMH0='' = ''eyJpZCI6InVzZXJfMTIzIiwidiI6NDIsIm8iOjEwMH0''"
  by (simp_all add: b64_eval strip_padding_def)


lemma sample_decoded:
  "DecodeCursor (json_Unmarshal int_codec no_time) ''eyJpZCI6InVzZXJfMTIzIiwidiI6NDIsIm8iOjEwMH0='' = (Some \<lparr>ID = ''user_123'', Value = 42, Timestamp = (), COffset = 100\<rparr>, None)"
  by (simp only: DecodeCursor_def sample_base64 sample_read option.case sum.case list.simps if_False)

lemma abc_json:
  "json_Marshal int_codec no_time \<lparr>ID = ''abc'', Value = 0, Timestamp = (), COffset = 0\<rparr>
     = Inr [CHR ''{'', CHR 0x22, CHR ''i'', CHR ''d'', CHR 0x22, CHR '':'', CHR 0x22, CHR ''a'', CHR ''b'', CHR ''c'', CHR 0x22, CHR ''}'']"
  by (simp add: json_eval)

lemma abc_read:
  "json_Unmarshal int_codec no_time [CHR ''{'', CHR 0x22, CHR ''i'', CHR ''d'', CHR 0x22, CHR '':'', CHR 0x22, CHR ''a'', CHR ''b'', CHR ''c'', CHR 0x22, CHR ''}'']
     = Inr \<lparr>ID = ''abc'', Value = 0, Timestamp = (), COffset = 0\<rparr>"
  by (simp add: json_eval)

lemma abc_representable:
  "representable (json_Marshal int_codec no_time) (json_Unmarshal int_codec no_time)
     \<lparr>ID = ''abc'', Value = 0, Timestamp = (), COffset = 0\<rparr>"
  by (simp only: representable_def abc_json abc_read sum.case list.simps simp_thms)

lemma abc_base64:
  "EncodeToString [CHR ''{'', CHR 0x22, CHR ''i'', CHR ''d'', CHR 0x22, CHR '':'', CHR 0x22, CHR ''a'', CHR ''b'', CHR ''c'', CHR 0x22, CHR ''}''] = ''eyJpZCI6ImFiYyJ9''"
  "DecodeString ''eyJpZCI6ImFiYyJ9'' = Some [CHR ''{'', CHR 0x22, CHR ''i'', CHR ''d'', CHR 0x22, CHR '':'', CHR 0x22, CHR ''a'', CHR ''b'', CHR ''c'', CHR 0x22, CHR ''}'']"
  "strip_padding ''eyJpZCI6ImFiYyJ9'' = ''eyJpZCI6ImFiYyJ9''"
  by (simp_all add: b64_eval strip_padding_def)

lemma abc_token:
  "EncodeCursor (json_Marshal int_codec no_time) (Some \<lparr>ID = ''abc'', Value = 0, Timestamp = (), COffset = 0\<rparr>) = (''eyJpZCI6ImFiYyJ9'', None)"
  by (simp only: EncodeCursor_def abc_json abc_base64 option.case sum.case)

lemma abc_decoded:
  "DecodeCursor (json_Unmarshal int_codec no_time) ''eyJpZCI6ImFiYyJ9'' = (Some \<lparr>ID = ''abc'', Value = 0, Timestamp = (), COffset = 0\<rparr>, None)"
  by (simp only: DecodeCursor_def abc_base64 abc_read option.case sum.case list.simps if_False)

lemma one_json:
  "json_Marshal int_codec no_time \<lparr>ID = ''a'', Value = 0, Timestamp = (), COffset = 0\<rparr>
     = Inr [CHR ''{'', CHR 0x22, CHR ''i'', CHR ''d'', CHR 0x22, CHR '':'', CHR 0x22, CHR ''a'', CHR 0x22, CHR ''}'']"
  by (simp add: json_eval)

lemma one_read:
  "json_Unmarshal int_codec no_time [CHR ''{'', CHR 0x22, CHR ''i'', CHR ''d'', CHR 0x22, CHR '':'', CHR 0x22, CHR ''a'', CHR 0x22, CHR ''}'']
     = Inr \<lparr>ID = ''a'', Value = 0, Timestamp = (), COffset = 0\<rparr>"
  by (simp add: json_eval)

lemma one_representable:
  "representable (json_Marshal int_codec no_time) (json_Unmarshal int_codec no_time)
     \<lparr>ID = ''a'', Value = 0, Timestamp = (), COffset = 0\<rparr>"
  by (simp only: representable_def one_json one_read sum.case list.simps simp_thms)

lemma one_base64:
  "EncodeToString [CHR ''{'', CHR 0x22, CHR ''i'', CHR ''d'', CHR 0x22, CHR '':'', CHR 0x22, CHR ''a'', CHR 0x22, CHR ''}''] = ''eyJpZCI6ImEifQ==''"
  "DecodeString ''eyJpZCI6ImEifQ=='' = Some [CHR ''{'', CHR 0x22, CHR ''i'', CHR ''d'', CHR 0x22, CHR '':'', CHR 0x22, CHR ''a'', CHR 0x22, CHR ''}'']"
  "strip_padding ''eyJpZCI6ImEifQ=='' = ''eyJpZCI6ImEifQ''"
  by (simp_all add: b64_eval strip_padding_def)

lemma one_token:
  "EncodeCursor (json_Marshal int_codec no_time) (Some \<lparr>ID = ''a'', Value = 0, Timestamp = (), COffset = 0\<rparr>) = (''eyJpZCI6ImEifQ=='', None)"
  by (simp only: EncodeCursor_def one_json one_base64 option.case sum.case)

lemma one_decoded:
  "DecodeCursor (json_Unmarshal int_codec no_time) ''eyJpZCI6ImEifQ=='' = (Some \<lparr>ID = ''a'', Value = 0, Timestamp = (), COffset = 0\<rparr>, None)"
  by (simp only: DecodeCursor_def one_base64 one_read option.case sum.case list.simps if_False)








text \<open>
  Claim C3, as amended. For every representable payload \<open>p\<close>, \<open>DecodeCursor\<close> succeeds and
  returns \<open>p\<close> on the padded token that \<open>EncodeCursor\<close> produces. On that token with its
  trailing padding stripped it succeeds and returns \<open>p\<close> when the token had no padding,
  that is when the length of the JSON document is a multiple of 3, and fails with
  \<open>ErrInvalidCursor\<close> otherwise.
\<close>

theorem padded_and_stripped_tokens:
  assumes "representable Marshal Unmarshal p" and "Marshal p = Inr b"
  shows "EncodeCursor Marshal (Some p) = (EncodeToString b, None) \<and>
         DecodeCursor Unmarshal (EncodeToString b) = (Some p, None) \<and>
         DecodeCursor Unmarshal (strip_padding (EncodeToString b)) =
           (if length b mod 3 = 0 then (Some p, None) else (None, Some ErrInvalidCursor))"
proof -
  from assms have b: "b \<noteq> []" "Unmarshal b = Inr p"
    by (auto simp add: representable_def)
  then show ?thesis
    using assms(2) by (simp add: EncodeCursor_def DecodeCursor_token DecodeCursor_stripped_token)
qed

theorem padded_and_stripped_tokens_witness:
  "representable (json_Marshal int_codec no_time) (json_Unmarshal int_codec no_time)
     \<lparr>ID = ''abc'', Value = 0, Timestamp = (), COffset = 0\<rparr> \<and>
   json_Marshal int_codec no_time \<lparr>ID = ''abc'', Value = 0, Timestamp = (), COffset = 0\<rparr> = Inr [CHR ''{'', CHR 0x22, CHR ''i'', CHR ''d'', CHR 0x22, CHR '':'', CHR 0x22, CHR ''a'', CHR ''b'', CHR ''c'', CHR 0x22, CHR ''}''] \<and>
   EncodeCursor (json_Marshal int_codec no_time) (Some \<lparr>ID = ''abc'', Value = 0, Timestamp = (), COffset = 0\<rparr>) = (''eyJpZCI6ImFiYyJ9'', None) \<and>
   DecodeCursor (json_Unmarshal int_codec no_time) ''eyJpZCI6ImFiYyJ9''
     = (Some \<lparr>ID = ''abc'', Value = 0, Timestamp = (), COffset = 0\<rparr>, None) \<and>
   DecodeCursor (json_Unmarshal int_codec no_time) (strip_padding ''eyJpZCI6ImFiYyJ9'')
     = (Some \<lparr>ID = ''abc'', Value = 0, Timestamp = (), COffset = 0\<rparr>, None) \<and>
   representable (json_Marshal int_codec no_time) (json_Unmarshal int_codec no_time)
     \<lparr>ID = ''user_123'', Value = 42, Timestamp = (), COffset = 100\<rparr> \<and>
   json_Marshal int_codec no_time \<lparr>ID = ''user_123'', Value = 42, Timestamp = (), COffset = 100\<rparr>
     = Inr [CHR ''{'', CHR 0x22, CHR ''i'', CHR ''d'', CHR 0x22, CHR '':'', CHR 0x22, CHR ''u'', CHR ''s'', CHR ''e'', CHR ''r'', CHR ''_'', CHR ''1'', CHR ''2'', CHR ''3'', CHR 0x22, CHR '','', CHR 0x22, CHR ''v'', CHR 0x22, CHR '':'', CHR ''4'', CHR ''2'', CHR '','', CHR 0x22, CHR ''o'', CHR 0x22, CHR '':'', CHR ''1'', CHR ''0'', CHR ''0'', CHR ''}''] \<and>
   DecodeCursor (json_Unmarshal int_codec no_time) (strip_padding ''eyJpZCI6InVzZXJfMTIzIiwidiI6NDIsIm8iOjEwMH0='')
     = (None, Some ErrInvalidCursor)"
proof -
  have n1: "length [CHR ''{'', CHR 0x22, CHR ''i'', CHR ''d'', CHR 0x22, CHR '':'', CHR 0x22, CHR ''a'', CHR ''b'', CHR ''c'', CHR 0x22, CHR ''}''] = 12"
    and n2: "length [CHR ''{'', CHR 0x22, CHR ''i'', CHR ''d'', CHR 0x22, CHR '':'', CHR 0x22, CHR ''u'', CHR ''s'', CHR ''e'', CHR ''r'', CHR ''_'', CHR ''1'', CHR ''2'', CHR ''3'', CHR 0x22, CHR '','', CHR 0x22, CHR ''v'', CHR 0x22, CHR '':'', CHR ''4'', CHR ''2'', CHR '','', CHR 0x22, CHR ''o'', CHR 0x22, CHR '':'', CHR ''1'', CHR ''0'', CHR ''0'', CHR ''}''] = 32"
    by simp_all
  have a: "DecodeCursor (json_Unmarshal int_codec no_time) (strip_padding ''eyJpZCI6ImFiYyJ9'')
     = (Some \<lparr>ID = ''abc'', Value = 0, Timestamp = (), COffset = 0\<rparr>, None)"
    using padded_and_stripped_tokens [of "json_Marshal int_codec no_time" "json_Unmarshal int_codec no_time"
        "\<lparr>ID = ''abc'', Value = 0, Timestamp = (), COffset = 0\<rparr>"
        "[CHR ''{'', CHR 0x22, CHR ''i'', CHR ''d'', CHR 0x22, CHR '':'', CHR 0x22, CHR ''a'', CHR ''b'', CHR ''c'', CHR 0x22, CHR ''}'']",
        OF abc_representable abc_json, THEN conjunct2, THEN conjunct2, unfolded abc_base64(1) n1]
    by simp
  have b: "DecodeCursor (json_Unmarshal int_codec no_time) (strip_padding ''eyJpZCI6InVzZXJfMTIzIiwidiI6NDIsIm8iOjEwMH0='')
     = (None, Some ErrInvalidCursor)"
    using padded_and_stripped_tokens [of "json_Marshal int_codec no_time" "json_Unmarshal int_codec no_time"
        "\<lparr>ID = ''user_123'', Value = 42, Timestamp = (), COffset = 100\<rparr>"
        "[CHR ''{'', CHR 0x22, CHR ''i'', CHR ''d'', CHR 0x22, CHR '':'', CHR 0x22, CHR ''u'', CHR ''s'', CHR ''e'', CHR ''r'', CHR ''_'', CHR ''1'', CHR ''2'', CHR ''3'', CHR 0x22, CHR '','', CHR 0x22, CHR ''v'', CHR 0x22, CHR '':'', CHR ''4'', CHR ''2'', CHR '','', CHR 0x22, CHR ''o'', CHR 0x22, CHR '':'', CHR ''1'', CHR ''0'', CHR ''0'', CHR ''}'']",
        OF sample_representable sample_json, THEN conjunct2, THEN conjunct2,
        unfolded sample_base64(1) n2]
    by simp
  show ?thesis
    using abc_representable abc_json abc_token abc_decoded a sample_representable sample_json b
    by (intro conjI)
qed

text \<open>
  The claim C3 as first stated fails on the token of the payload with the id \<open>a\<close> and
  nothing else, whose document \<open>{"id":"a"}\<close> is ten bytes long: the token ends in two
  padding characters, and without them it is rejected.
\<close>

theorem stripped_token_counterexample:
  "representable (json_Marshal int_codec no_time) (json_Unmarshal int_codec no_time)
     \<lparr>ID = ''a'', Value = 0, Timestamp = (), COffset = 0\<rparr> \<and>
   EncodeCursor (json_Marshal int_codec no_time) (Some \<lparr>ID = ''a'', Value = 0, Timestamp = (), COffset = 0\<rparr>) = (''eyJpZCI6ImEifQ=='', None) \<and>
   DecodeCursor (json_Unmarshal int_codec no_time) ''eyJpZCI6ImEifQ==''
     = (Some \<lparr>ID = ''a'', Value = 0, Timestamp = (), COffset = 0\<rparr>, None) \<and>
   strip_padding ''eyJpZCI6ImEifQ=='' = ''eyJpZCI6ImEifQ'' \<and>
   DecodeCursor (json_Unmarshal int_codec no_time) ''eyJpZCI6ImEifQ'' = (None, Some ErrInvalidCursor)"
proof -
  have "DecodeString ''eyJpZCI6ImEifQ'' = None"
    by (simp add: b64_eval)
  then have "DecodeCursor (json_Unmarshal int_codec no_time) ''eyJpZCI6ImEifQ'' = (None, Some ErrInvalidCursor)"
    by (simp only: DecodeCursor_def option.case list.simps if_False)
  then show ?thesis
    using one_representable one_token one_decoded one_base64(3) by (intro conjI)
qed

text \<open>
  Claim C5. \<open>DecodeCursor\<close> returns no payload and no error on the empty token. On a
  token that is not empty it returns \<open>ErrInvalidCursor\<close>, and no payload, both when the
  base64 decoding fails and when the decoded bytes fail to deserialize; and it returns
  the payload with no error when both succeed.
\<close>

theorem DecodeCursor_failures:
  "DecodeCursor Unmarshal [] = (None, None) \<and>
   (cursor \<noteq> [] \<and> DecodeString cursor = None \<longrightarrow>
      DecodeCursor Unmarshal cursor = (None, Some ErrInvalidCursor)) \<and>
   (cursor \<noteq> [] \<and> DecodeString cursor = Some b \<and> Unmarshal b = Inl err \<longrightarrow>
      DecodeCursor Unmarshal cursor = (None, Some ErrInvalidCursor)) \<and>
   (cursor \<noteq> [] \<and> DecodeString cursor = Some b \<and> Unmarshal b = Inr data \<longrightarrow>
      DecodeCursor Unmarshal cursor = (Some data, None))"
  by (simp add: DecodeCursor_def)

lemma invalid_tokens:
  "DecodeString ''not-valid-base64!!!'' = None"
  "DecodeString ''dGhpcyBpcyBub3QganNvbg=='' = Some ''this is not json''"
  "json_Unmarshal int_codec no_time ''this is not json'' = Inl InvalidJSON"
  by (simp_all add: b64_eval json_eval)

theorem DecodeCursor_failures_witness:
  "DecodeString ''not-valid-base64!!!'' = None \<and>
   DecodeCursor (json_Unmarshal int_codec no_time) ''not-valid-base64!!!'' = (None, Some ErrInvalidCursor) \<and>
   DecodeString ''dGhpcyBpcyBub3QganNvbg=='' = Some ''this is not json'' \<and>
   json_Unmarshal int_codec no_time ''this is not json'' = Inl InvalidJSON \<and>
   DecodeCursor (json_Unmarshal int_codec no_time) ''dGhpcyBpcyBub3QganNvbg=='' = (None, Some ErrInvalidCursor) \<and>
   DecodeString ''eyJpZCI6ImFiYyJ9'' = Some [CHR ''{'', CHR 0x22, CHR ''i'', CHR ''d'', CHR 0x22, CHR '':'', CHR 0x22, CHR ''a'', CHR ''b'', CHR ''c'', CHR 0x22, CHR ''}''] \<and>
   json_Unmarshal int_codec no_time [CHR ''{'', CHR 0x22, CHR ''i'', CHR ''d'', CHR 0x22, CHR '':'', CHR 0x22, CHR ''a'', CHR ''b'', CHR ''c'', CHR 0x22, CHR ''}'']
     = Inr \<lparr>ID = ''abc'', Value = 0, Timestamp = (), COffset = 0\<rparr> \<and>
   DecodeCursor (json_Unmarshal int_codec no_time) ''eyJpZCI6ImFiYyJ9''
     = (Some \<lparr>ID = ''abc'', Value = 0, Timestamp = (), COffset = 0\<rparr>, None)"
proof -
  have n: "''not-valid-base64!!!'' \<noteq> []" "''dGhpcyBpcyBub3QganNvbg=='' \<noteq> []" "''eyJpZCI6ImFiYyJ9'' \<noteq> []"
    by simp_all
  have a: "DecodeCursor (json_Unmarshal int_codec no_time) ''not-valid-base64!!!'' = (None, Some ErrInvalidCursor)"
    by (rule DecodeCursor_failures [of "json_Unmarshal int_codec no_time" "''not-valid-base64!!!''",
          THEN conjunct2, THEN conjunct1, THEN mp, OF conjI [OF n(1) invalid_tokens(1)]])
  have b: "DecodeCursor (json_Unmarshal int_codec no_time) ''dGhpcyBpcyBub3QganNvbg=='' = (None, Some ErrInvalidCursor)"
    by (rule DecodeCursor_failures [of "json_Unmarshal int_codec no_time" "''dGhpcyBpcyBub3QganNvbg==''" "''this is not json''" InvalidJSON,
          THEN conjunct2, THEN conjunct2, THEN conjunct1, THEN mp,
          OF conjI [OF n(2) conjI [OF invalid_tokens(2) invalid_tokens(3)]]])
  have c: "DecodeCursor (json_Unmarshal int_codec no_time) ''eyJpZCI6ImFiYyJ9''
             = (Some \<lparr>ID = ''abc'', Value = 0, Timestamp = (), COffset = 0\<rparr>, None)"
    by (rule DecodeCursor_failures [of "json_Unmarshal int_codec no_time" "''eyJpZCI6ImFiYyJ9''"
            "[CHR ''{'', CHR 0x22, CHR ''i'', CHR ''d'', CHR 0x22, CHR '':'', CHR 0x22, CHR ''a'', CHR ''b'', CHR ''c'', CHR 0x22, CHR ''}'']" _
            "\<lparr>ID = ''abc'', Value = 0, Timestamp = (), COffset = 0\<rparr>",
          THEN conjunct2, THEN conjunct2, THEN conjunct2, THEN mp,
          OF conjI [OF n(3) conjI [OF abc_base64(2) abc_read]]])
  show ?thesis
    using invalid_tokens a b c abc_base64(2) abc_read by (intro conjI)
qed


end
